theory Spec2Isabelle
  imports Complex_Main "HOL-Library.AList"
begin

section \<open>Items, errors and ports (layer.py)\<close>

text \<open>
  A Python value travelling through the graph is either \<open>None\<close>, the enum member
  \<open>LayerSignal.STOP\<close>, or any other object.
\<close>

datatype 'a item = NONE | STOP | Data 'a

text \<open>
  The ways a call fails to return a value: the exceptions the modelled code can raise, and
  two ways of not returning at all. \<open>Blocked\<close> is a \<open>queue.get()\<close> on a queue that
  never receives another item; \<open>Polling\<close> is a polling loop that is still going round
  when the passes it was given are used up.
\<close>

datatype error =
  NameError | KeyError | IndexError | TypeError | ValueError | ZeroDivisionError | AssertionError
  | Blocked | Polling

text \<open>\<open>isinstance(data, LayerSignal)\<close>: \<open>STOP\<close> is the only member of the enum.\<close>

fun isinstance_LayerSignal :: "'a item \<Rightarrow> bool" where
  "isinstance_LayerSignal STOP = True"
| "isinstance_LayerSignal NONE = False"
| "isinstance_LayerSignal (Data x) = False"

text \<open>
  \<open>Port.out_queues\<close> is a list of subscriber queues. On the producing side a queue is
  the list of the items put on it so far, oldest first.
\<close>

type_synonym 'a port = "'a item list list"

definition Port_init :: "'a port" where
  "Port_init = []"

text \<open>\<open>Port.get_output\<close> appends a fresh queue and returns it (here: its index).\<close>

definition Port_get_output :: "'a port \<Rightarrow> nat \<times> 'a port" where
  "Port_get_output out_queues = (length out_queues, out_queues @ [[]])"

definition Port_handle_output :: "'a item \<Rightarrow> 'a port \<Rightarrow> 'a port" where
  "Port_handle_output data out_queues =
     (if data \<noteq> NONE then map (\<lambda>queue. queue @ [data]) out_queues else out_queues)"

section \<open>BaseLayer\<close>

text \<open>
  The fields of \<open>BaseLayer\<close> that the processing loop reads or writes. \<open>now\<close> is the
  logical time in seconds: it only moves when the layer sleeps or waits on a queue.
  \<open>count\<close> is the number of \<open>tick()\<close> calls; the rolling window of \<open>tick\<close>
  (\<open>start_time\<close>, \<open>fps\<close>, \<open>reset\<close>) reads the wall clock, feeds nothing
  else in the layer and is left out. \<open>post_init\<close> and \<open>handle_signal\<close> are empty
  hooks in the source; \<open>post_init_calls\<close> records the arguments \<open>post_init\<close> was
  called with, oldest first, so that the calls can be talked about.
\<close>

record ('i, 'o) BaseLayer =
  out_port :: "'o port"
  counter :: nat
  signal :: "'i item option"
  is_first :: bool
  stop_event :: bool
  signal_in :: "'i item list option"
  count :: nat
  now :: real
  post_init_calls :: "'i list"

definition BaseLayer_init :: "('i, 'o) BaseLayer" where
  "BaseLayer_init =
     \<lparr> out_port = Port_init, counter = 0, signal = None, is_first = True,
       stop_event = False, signal_in = None, count = 0, now = 0, post_init_calls = [] \<rparr>"

definition tick :: "('i, 'o, 'z) BaseLayer_scheme \<Rightarrow> ('i, 'o, 'z) BaseLayer_scheme" where
  "tick s = s\<lparr>count := count s + 1\<rparr>"

definition post_init :: "'i \<Rightarrow> ('i, 'o, 'z) BaseLayer_scheme \<Rightarrow> ('i, 'o, 'z) BaseLayer_scheme" where
  "post_init data s = s\<lparr>post_init_calls := post_init_calls s @ [data]\<rparr>"

definition stop :: "('i, 'o, 'z) BaseLayer_scheme \<Rightarrow> ('i, 'o, 'z) BaseLayer_scheme" where
  "stop s = s\<lparr>stop_event := True\<rparr>"

text \<open>
  \<open>get_signal\<close> empties the signal queue; \<open>self.signal\<close> ends as the last signal
  taken, or \<open>None\<close>.
\<close>

definition get_signal :: "('i, 'o, 'z) BaseLayer_scheme \<Rightarrow> ('i, 'o, 'z) BaseLayer_scheme" where
  "get_signal s =
     (case signal_in s of
        None \<Rightarrow> s\<lparr>signal := None\<rparr>
      | Some q \<Rightarrow> s\<lparr>signal := (if q = [] then None else Some (last q)), signal_in := Some []\<rparr>)"

text \<open>\<open>time.sleep(d)\<close> raises \<open>ValueError\<close> on a negative duration.\<close>

definition sleep :: "real \<Rightarrow> ('i, 'o, 'z) BaseLayer_scheme \<Rightarrow> error + ('i, 'o, 'z) BaseLayer_scheme" where
  "sleep d s = (if d < 0 then Inl ValueError else Inr (s\<lparr>now := now s + d\<rparr>))"

text \<open>\<open>time.sleep(1.0/self.rate)\<close>.\<close>

definition sleep_rate :: "real \<Rightarrow> ('i, 'o, 'z) BaseLayer_scheme \<Rightarrow> error + ('i, 'o, 'z) BaseLayer_scheme" where
  "sleep_rate r s = (if r = 0 then Inl ZeroDivisionError else sleep (1 / r) s)"

text \<open>\<open>BaseOutputLayer.handle_output\<close>: everything goes to the default port.\<close>

definition BaseOutputLayer_handle_output ::
  "'o item \<Rightarrow> ('i, 'o, 'z) BaseLayer_scheme \<Rightarrow> error + ('i, 'o, 'z) BaseLayer_scheme" where
  "BaseOutputLayer_handle_output data s = Inr (s\<lparr>out_port := Port_handle_output data (out_port s)\<rparr>)"

text \<open>\<open>BaseOutputLayer.get_output\<close>: a new subscriber queue on the default port.\<close>

definition BaseOutputLayer_get_output ::
  "('i, 'o, 'z) BaseLayer_scheme \<Rightarrow> nat \<times> ('i, 'o, 'z) BaseLayer_scheme" where
  "BaseOutputLayer_get_output s =
     (case Port_get_output (out_port s) of (queue, p) \<Rightarrow> (queue, s\<lparr>out_port := p\<rparr>))"

text \<open>\<open>BaseLayer.transform\<close> is the identity.\<close>

definition BaseLayer_transform :: "'i \<Rightarrow> 'i item" where
  "BaseLayer_transform data = Data data"

subsection \<open>The processing loop\<close>

text \<open>
  One pass through the body of \<open>while not self.stop_event.is_set()\<close>. The methods
  that subclasses override are parameters: \<open>gi\<close> is \<open>get_input\<close>, \<open>tf\<close> is
  \<open>transform\<close> (a function of the data alone), \<open>ho\<close> is \<open>handle_output\<close>. An
  exception ends the thread, so the body returns it in place of a state.
\<close>

definition loop_body ::
  "(('i, 'o, 'z) BaseLayer_scheme \<Rightarrow> error + 'i item \<times> ('i, 'o, 'z) BaseLayer_scheme) \<Rightarrow>
   ('i \<Rightarrow> 'o item) \<Rightarrow>
   ('o item \<Rightarrow> ('i, 'o, 'z) BaseLayer_scheme \<Rightarrow> error + ('i, 'o, 'z) BaseLayer_scheme) \<Rightarrow>
   ('i, 'o, 'z) BaseLayer_scheme \<Rightarrow> error + ('i, 'o, 'z) BaseLayer_scheme" where
  "loop_body gi tf ho s =
     (case gi s of
        Inl e \<Rightarrow> Inl e
      | Inr (data, s1) \<Rightarrow>
          if isinstance_LayerSignal data \<and> data = STOP then Inr (stop s1)
          else (case data of
             NONE \<Rightarrow> Inr s1
           | STOP \<Rightarrow> Inr (stop s1)
           | Data x \<Rightarrow>
               let s2 = get_signal s1;
                   s3 = (if is_first s2 then (post_init x s2)\<lparr>is_first := False\<rparr> else s2);
                   data_transformed = tf x
               in if data_transformed = NONE then Inr s3
                  else (case ho data_transformed s3 of
                     Inl e \<Rightarrow> Inl e
                   | Inr s4 \<Rightarrow>
                       let s5 = tick s4;
                           s6 = (if isinstance_LayerSignal data \<and> data_transformed = STOP
                                 then stop s5 else s5)
                       in Inr (s6\<lparr>counter := counter s6 + 1\<rparr>))))"

text \<open>
  The state after at most \<open>n\<close> passes: the loop stops taking passes once the stop
  event is set.
\<close>

fun iterations ::
  "(('i, 'o, 'z) BaseLayer_scheme \<Rightarrow> error + 'i item \<times> ('i, 'o, 'z) BaseLayer_scheme) \<Rightarrow>
   ('i \<Rightarrow> 'o item) \<Rightarrow>
   ('o item \<Rightarrow> ('i, 'o, 'z) BaseLayer_scheme \<Rightarrow> error + ('i, 'o, 'z) BaseLayer_scheme) \<Rightarrow>
   nat \<Rightarrow> ('i, 'o, 'z) BaseLayer_scheme \<Rightarrow> error + ('i, 'o, 'z) BaseLayer_scheme" where
  "iterations gi tf ho 0 s = Inr s"
| "iterations gi tf ho (Suc n) s =
     (if stop_event s then Inr s
      else (case loop_body gi tf ho s of
              Inl e \<Rightarrow> Inl e
            | Inr s' \<Rightarrow> iterations gi tf ho n s'))"

text \<open>
  \<open>process_loop\<close> with fuel: \<open>None\<close> when the loop is still running after \<open>n\<close>
  passes, otherwise the state after the terminal \<open>handle_output(STOP)\<close> (\<open>shutdown\<close>
  is an empty hook), or the exception that ended the thread.
\<close>

fun process_loop ::
  "(('i, 'o, 'z) BaseLayer_scheme \<Rightarrow> error + 'i item \<times> ('i, 'o, 'z) BaseLayer_scheme) \<Rightarrow>
   ('i \<Rightarrow> 'o item) \<Rightarrow>
   ('o item \<Rightarrow> ('i, 'o, 'z) BaseLayer_scheme \<Rightarrow> error + ('i, 'o, 'z) BaseLayer_scheme) \<Rightarrow>
   nat \<Rightarrow> ('i, 'o, 'z) BaseLayer_scheme \<Rightarrow> (error + ('i, 'o, 'z) BaseLayer_scheme) option" where
  "process_loop gi tf ho 0 s = (if stop_event s then Some (ho STOP s) else None)"
| "process_loop gi tf ho (Suc n) s =
     (if stop_event s then Some (ho STOP s)
      else (case loop_body gi tf ho s of
              Inl e \<Rightarrow> Some (Inl e)
            | Inr s' \<Rightarrow> process_loop gi tf ho n s'))"

section \<open>Producers (input_layers.py)\<close>

text \<open>
  \<open>InputLayer\<close>: \<open>generate\<close> is the \<open>_generate\<close> attribute, a function of the
  counter (the default returns the counter itself).
\<close>

record ('i, 'o) InputLayer = "('i, 'o) BaseLayer" +
  generate :: "nat \<Rightarrow> 'i item"
  rate :: real

definition InputLayer_get_input ::
  "('i, 'o, 'z) InputLayer_scheme \<Rightarrow> error + 'i item \<times> ('i, 'o, 'z) InputLayer_scheme" where
  "InputLayer_get_input s =
     (case sleep_rate (rate s) s of
        Inl e \<Rightarrow> Inl e
      | Inr s1 \<Rightarrow> let data = generate s1 (counter s1) in Inr (data, tick s1))"

text \<open>\<open>OneShotInputLayer\<close>; \<open>val\<close> is the attribute \<open>value\<close>.\<close>

record ('i, 'o) OneShotInputLayer = "('i, 'o) BaseLayer" +
  val :: "'i item"

definition OneShotInputLayer_init :: "'i item \<Rightarrow> ('i, 'o) OneShotInputLayer" where
  "OneShotInputLayer_init v = BaseLayer.extend BaseLayer_init (OneShotInputLayer.fields v)"

definition OneShotInputLayer_get_input ::
  "('i, 'o, 'z) OneShotInputLayer_scheme \<Rightarrow> error + 'i item \<times> ('i, 'o, 'z) OneShotInputLayer_scheme" where
  "OneShotInputLayer_get_input s =
     (if counter s = 0 then Inr (val s, s)
      else (case sleep 1 s of Inl e \<Rightarrow> Inl e | Inr s1 \<Rightarrow> Inr (NONE, s1)))"

text \<open>
  \<open>MultipleShotInputLayer\<close>. Its items are Python ints: the default generator returns
  the counter and the finishing shot is \<open>-1\<close>. \<open>completions\<close> counts the calls of
  \<open>completion_handler\<close> (which \<open>__init__\<close> never leaves as \<open>None\<close>).
\<close>

record 'o MultipleShotInputLayer = "(int, 'o) BaseLayer" +
  ms_rate :: real
  ms_generate :: "nat \<Rightarrow> int item"
  num_shots :: int
  finish :: bool
  completions :: nat
  expired :: bool

definition default_generate :: "nat \<Rightarrow> int item" where
  "default_generate c = Data (int c)"

definition MultipleShotInputLayer_init ::
  "int \<Rightarrow> (nat \<Rightarrow> int item) \<Rightarrow> real \<Rightarrow> bool \<Rightarrow> 'o MultipleShotInputLayer" where
  "MultipleShotInputLayer_init n frame_generator r fin =
     BaseLayer.extend BaseLayer_init
       (MultipleShotInputLayer.fields r frame_generator (if \<not> fin then n else n + 1) fin 0 False)"

definition completion_handler ::
  "('o, 'z) MultipleShotInputLayer_scheme \<Rightarrow> ('o, 'z) MultipleShotInputLayer_scheme" where
  "completion_handler s = s\<lparr>completions := completions s + 1\<rparr>"

definition MultipleShotInputLayer_get_input ::
  "('o, 'z) MultipleShotInputLayer_scheme \<Rightarrow> error + int item \<times> ('o, 'z) MultipleShotInputLayer_scheme" where
  "MultipleShotInputLayer_get_input s =
     (if int (counter s) < num_shots s - 1 then
        (case sleep_rate (ms_rate s) s of
           Inl e \<Rightarrow> Inl e
         | Inr s1 \<Rightarrow> let data = ms_generate s1 (counter s1) in Inr (data, tick s1))
      else if int (counter s) = num_shots s - 1 then
        (case sleep_rate (ms_rate s) s of
           Inl e \<Rightarrow> Inl e
         | Inr s1 \<Rightarrow>
             let s2 = completion_handler (tick s1)
             in if finish s2 then Inr (Data (- 1), s2) else Inr (NONE, s2))
      else
        (let s1 = (if \<not> expired s then s\<lparr>expired := True\<rparr> else s)
         in case sleep_rate (ms_rate s1) s1 of
              Inl e \<Rightarrow> Inl e
            | Inr s2 \<Rightarrow> Inr (NONE, s2)))"

section \<open>MultiOutputMixin\<close>

text \<open>
  The two port tables are Python dicts: association lists in insertion order. The layer
  emits mappings from port names to sub-items; the named ports carry the sub-items and
  the default port carries the whole mapping. A port object is referred to by the table
  it lives in and its name.
\<close>

record ('i, 'v) MultiOutputMixin = "('i, (string \<times> 'v item) list) BaseLayer" +
  ports :: "(string \<times> 'v port) list"
  auto_ports :: "(string \<times> 'v port) list"

definition MultiOutputMixin_init :: "('i, 'v) MultiOutputMixin" where
  "MultiOutputMixin_init = BaseLayer.extend BaseLayer_init (MultiOutputMixin.fields [] [])"

datatype port_ref = Declared string | Auto string

definition is_in :: "string \<Rightarrow> (string \<times> 'b) list \<Rightarrow> bool" where
  "is_in key d = (map_of d key \<noteq> None)"

definition register_port ::
  "string \<Rightarrow> bool \<Rightarrow> ('i, 'v, 'z) MultiOutputMixin_scheme \<Rightarrow> error + ('i, 'v, 'z) MultiOutputMixin_scheme" where
  "register_port port auto s =
     (if \<not> auto then
        (if is_in port (ports s) then Inl NameError
         else Inr (s\<lparr>ports := AList.update port Port_init (ports s)\<rparr>))
      else
        (if is_in port (auto_ports s) then Inl NameError
         else Inr (s\<lparr>auto_ports := AList.update port Port_init (auto_ports s)\<rparr>)))"

definition get_port ::
  "string \<Rightarrow> ('i, 'v, 'z) MultiOutputMixin_scheme \<Rightarrow> error + port_ref \<times> ('i, 'v, 'z) MultiOutputMixin_scheme" where
  "get_port port s =
     (if is_in port (ports s) then Inr (Declared port, s)
      else if is_in port (auto_ports s) then Inr (Auto port, s)
      else (case register_port port True s of
              Inl e \<Rightarrow> Inl e
            | Inr s1 \<Rightarrow>
                if is_in port (auto_ports s1) then Inr (Auto port, s1)
                else Inl NameError))"

text \<open>The port object a reference stands for, if it exists.\<close>

fun deref :: "port_ref \<Rightarrow> ('i, 'v, 'z) MultiOutputMixin_scheme \<Rightarrow> 'v port option" where
  "deref (Declared port) s = map_of (ports s) port"
| "deref (Auto port) s = map_of (auto_ports s) port"

text \<open>\<open>port.handle_output(sub)\<close> on the port object a reference stands for.\<close>

fun port_handle_output ::
  "port_ref \<Rightarrow> 'v item \<Rightarrow> ('i, 'v, 'z) MultiOutputMixin_scheme \<Rightarrow> ('i, 'v, 'z) MultiOutputMixin_scheme" where
  "port_handle_output (Declared port) sub s =
     s\<lparr>ports := AList.map_entry port (Port_handle_output sub) (ports s)\<rparr>"
| "port_handle_output (Auto port) sub s =
     s\<lparr>auto_ports := AList.map_entry port (Port_handle_output sub) (auto_ports s)\<rparr>"

text \<open>
  \<open>data[key]\<close>: \<open>TypeError\<close> on \<open>None\<close> and on \<open>LayerSignal.STOP\<close> (neither can
  be subscripted), \<open>KeyError\<close> when the mapping has no such key.
\<close>

fun subscript :: "(string \<times> 'v item) list item \<Rightarrow> string \<Rightarrow> error + 'v item" where
  "subscript NONE key = Inl TypeError"
| "subscript STOP key = Inl TypeError"
| "subscript (Data m) key = (case map_of m key of None \<Rightarrow> Inl KeyError | Some sub \<Rightarrow> Inr sub)"

text \<open>The \<open>for key in ...\<close> loop of \<open>handle_output\<close>; only \<open>KeyError\<close> is caught.\<close>

fun forward_keys ::
  "(string \<times> 'v item) list item \<Rightarrow> string list \<Rightarrow> ('i, 'v, 'z) MultiOutputMixin_scheme \<Rightarrow>
   error + ('i, 'v, 'z) MultiOutputMixin_scheme" where
  "forward_keys data [] s = Inr s"
| "forward_keys data (key # rest) s =
     (case (if is_in key (ports s) then Inr (Declared key)
            else if is_in key (auto_ports s) then Inr (Auto key)
            else Inl NameError) of
        Inl e \<Rightarrow> Inl e
      | Inr port \<Rightarrow>
          (case subscript data key of
             Inl e \<Rightarrow> if e = KeyError then forward_keys data rest s else Inl e
           | Inr sub \<Rightarrow> forward_keys data rest (port_handle_output port sub s)))"

definition MultiOutputMixin_handle_output ::
  "(string \<times> 'v item) list item \<Rightarrow> ('i, 'v, 'z) MultiOutputMixin_scheme \<Rightarrow>
   error + ('i, 'v, 'z) MultiOutputMixin_scheme" where
  "MultiOutputMixin_handle_output data s =
     (case (if data \<noteq> NONE
            then forward_keys data (map fst (ports s) @ map fst (auto_ports s)) s
            else Inr s) of
        Inl e \<Rightarrow> Inl e
      | Inr s1 \<Rightarrow> BaseOutputLayer_handle_output data s1)"

section \<open>TransformMixin\<close>

datatype LayerTrigger = SLOWEST | FASTEST | LAYER | TIMER

text \<open>
  The \<open>trigger\<close> argument is any Python value: a member of \<open>LayerTrigger\<close> or
  something else. \<open>trigger_source\<close> is \<open>None\<close>, a number of seconds (for
  \<open>TIMER\<close>) or a key (for \<open>LAYER\<close>).
\<close>

datatype trigger_value = Trigger LayerTrigger | NotATrigger

datatype trigger_source_value = NoSource | Seconds real | Key string

text \<open>
  An input queue is filled by the upstream layer while this layer runs. It is modelled by
  its feed: the items that are or will be put on it, oldest first, each with the time of
  its arrival. \<open>get()\<close> waits for the next item, which moves the time on to its
  arrival if that is still to come, and never returns when the feed is used up;
  \<open>get_nowait()\<close> takes the next item only if it has arrived, and is \<open>None\<close>
  where the source raises \<open>queue.Empty\<close>.
\<close>

type_synonym 'a in_queue = "(real \<times> 'a item) list"

fun Queue_get :: "real \<Rightarrow> 'a in_queue \<Rightarrow> ('a item \<times> 'a in_queue \<times> real) option" where
  "Queue_get t [] = None"
| "Queue_get t ((arrival, x) # q) = Some (x, q, max t arrival)"

fun Queue_get_nowait :: "real \<Rightarrow> 'a in_queue \<Rightarrow> ('a item \<times> 'a in_queue) option" where
  "Queue_get_nowait t [] = None"
| "Queue_get_nowait t ((arrival, x) # q) = (if arrival \<le> t then Some (x, q) else None)"

text \<open>
  \<open>while True: v = q.get_nowait()\<close> until \<open>queue.Empty\<close>: the last item taken, or
  the value \<open>v\<close> had before when nothing has arrived.
\<close>

fun drain :: "real \<Rightarrow> 'a item \<Rightarrow> 'a in_queue \<Rightarrow> 'a item \<times> 'a in_queue" where
  "drain t v [] = (v, [])"
| "drain t v ((arrival, x) # q) = (if arrival \<le> t then drain t x q else (v, (arrival, x) # q))"

text \<open>
  What \<open>get_input\<close> hands to \<open>transform\<close>: the gathered dict, or, for the single
  key \<open>'default'\<close>, the item taken from the queue itself.
\<close>

datatype 'a input = Raw 'a | Gathered "(string \<times> 'a item) list"

record ('a, 'o) TransformMixin = "('a input, 'o) BaseLayer" +
  ports_in :: "(string \<times> 'a in_queue) list"
  keys :: "string list"
  discard_old :: bool
  trigger :: trigger_value
  trigger_source :: trigger_source_value

text \<open>
  \<open>set_input\<close>: \<open>feed\<close> is the queue that \<open>port_in.get_output()\<close> returns,
  with what upstream will put on it.
\<close>

definition set_input ::
  "'a in_queue \<Rightarrow> string \<Rightarrow> ('a, 'o, 'z) TransformMixin_scheme \<Rightarrow> error + ('a, 'o, 'z) TransformMixin_scheme" where
  "set_input feed key s =
     (if key \<in> set (keys s) then Inl AssertionError
      else Inr (s\<lparr>keys := keys s @ [key], ports_in := AList.update key feed (ports_in s)\<rparr>))"

definition TransformMixin_init ::
  "'a in_queue option \<Rightarrow> trigger_value \<Rightarrow> trigger_source_value \<Rightarrow> bool \<Rightarrow> error + ('a, 'o) TransformMixin" where
  "TransformMixin_init port_in trig source discard =
     (let s0 = BaseLayer.extend BaseLayer_init (TransformMixin.fields [] [] discard trig source)
      in case port_in of
           None \<Rightarrow> Inr s0
         | Some feed \<Rightarrow> set_input feed ''default'' s0)"

text \<open>
  The loops over \<open>self.keys\<close> work on the dict \<open>data\<close>, the queues and the time.
\<close>

fun get_all_keys ::
  "bool \<Rightarrow> string list \<Rightarrow> (string \<times> 'a item) list \<Rightarrow> (string \<times> 'a in_queue) list \<Rightarrow> real \<Rightarrow>
   error + (string \<times> 'a item) list \<times> (string \<times> 'a in_queue) list \<times> real" where
  "get_all_keys discard [] data qs t = Inr (data, qs, t)"
| "get_all_keys discard (key # rest) data qs t =
     (case map_of qs key of
        None \<Rightarrow> Inl KeyError
      | Some q \<Rightarrow>
         (case Queue_get t q of
            None \<Rightarrow> Inl Blocked
          | Some (x, q1, t1) \<Rightarrow>
              if discard then
                (let (x2, q2) = drain t1 x q1
                 in get_all_keys discard rest (AList.update key x2 data) (AList.update key q2 qs) t1)
              else get_all_keys discard rest (AList.update key x data) (AList.update key q1 qs) t1))"

definition get_all ::
  "bool \<Rightarrow> ('a, 'o, 'z) TransformMixin_scheme \<Rightarrow>
   error + (string \<times> 'a item) list \<times> ('a, 'o, 'z) TransformMixin_scheme" where
  "get_all discard s =
     (case get_all_keys discard (keys s) [] (ports_in s) (now s) of
        Inl e \<Rightarrow> Inl e
      | Inr (data, qs, t) \<Rightarrow> Inr (data, s\<lparr>ports_in := qs, now := t\<rparr>))"

text \<open>
  The body shared by \<open>get_all_nowait\<close> and \<open>get_ensure_layer\<close>:
  \<open>while True: data[key] = q.get_nowait(); if not discard_old: break\<close>.
\<close>

definition take_nowait ::
  "bool \<Rightarrow> string \<Rightarrow> (string \<times> 'a item) list \<Rightarrow> (string \<times> 'a in_queue) list \<Rightarrow> real \<Rightarrow>
   error + (string \<times> 'a item) list \<times> (string \<times> 'a in_queue) list" where
  "take_nowait discard key data qs t =
     (case map_of qs key of
        None \<Rightarrow> Inl KeyError
      | Some q \<Rightarrow>
         (case Queue_get_nowait t q of
            None \<Rightarrow> Inr (data, qs)
          | Some (x, q1) \<Rightarrow>
              if discard then
                (let (x2, q2) = drain t x q1
                 in Inr (AList.update key x2 data, AList.update key q2 qs))
              else Inr (AList.update key x data, AList.update key q1 qs)))"

fun get_all_nowait_keys ::
  "bool \<Rightarrow> string list \<Rightarrow> (string \<times> 'a item) list \<Rightarrow> (string \<times> 'a in_queue) list \<Rightarrow> real \<Rightarrow>
   error + (string \<times> 'a item) list \<times> (string \<times> 'a in_queue) list" where
  "get_all_nowait_keys discard [] data qs t = Inr (data, qs)"
| "get_all_nowait_keys discard (key # rest) data qs t =
     (case take_nowait discard key data qs t of
        Inl e \<Rightarrow> Inl e
      | Inr (data1, qs1) \<Rightarrow> get_all_nowait_keys discard rest data1 qs1 t)"

definition get_all_nowait ::
  "bool \<Rightarrow> ('a, 'o, 'z) TransformMixin_scheme \<Rightarrow>
   error + (string \<times> 'a item) list \<times> ('a, 'o, 'z) TransformMixin_scheme" where
  "get_all_nowait discard s =
     (case get_all_nowait_keys discard (keys s) [] (ports_in s) (now s) of
        Inl e \<Rightarrow> Inl e
      | Inr (data, qs) \<Rightarrow> Inr (data, s\<lparr>ports_in := qs\<rparr>))"

fun get_ensure_layer_keys ::
  "string \<Rightarrow> bool \<Rightarrow> string list \<Rightarrow> (string \<times> 'a item) list \<Rightarrow> (string \<times> 'a in_queue) list \<Rightarrow> real \<Rightarrow>
   error + (string \<times> 'a item) list \<times> (string \<times> 'a in_queue) list" where
  "get_ensure_layer_keys layer discard [] data qs t = Inr (data, qs)"
| "get_ensure_layer_keys layer discard (key # rest) data qs t =
     (if key = layer then get_ensure_layer_keys layer discard rest data qs t
      else (case take_nowait discard key data qs t of
              Inl e \<Rightarrow> Inl e
            | Inr (data1, qs1) \<Rightarrow> get_ensure_layer_keys layer discard rest data1 qs1 t))"

definition get_ensure_layer ::
  "string \<Rightarrow> bool \<Rightarrow> ('a, 'o, 'z) TransformMixin_scheme \<Rightarrow>
   error + (string \<times> 'a item) list \<times> ('a, 'o, 'z) TransformMixin_scheme" where
  "get_ensure_layer layer discard s =
     (if layer \<notin> set (keys s) then Inl AssertionError
      else (case map_of (ports_in s) layer of
              None \<Rightarrow> Inl KeyError
            | Some q \<Rightarrow>
               (case Queue_get (now s) q of
                  None \<Rightarrow> Inl Blocked
                | Some (x, q1, t1) \<Rightarrow>
                   (case get_ensure_layer_keys layer discard (keys s)
                           (AList.update layer x []) (AList.update layer q1 (ports_in s)) t1 of
                      Inl e \<Rightarrow> Inl e
                    | Inr (data, qs) \<Rightarrow> Inr (data, s\<lparr>ports_in := qs, now := t1\<rparr>)))))"

text \<open>
  \<open>get_any\<close>. One pass of \<open>for key in self.keys\<close>: \<open>Inr (Inl ...)\<close> is the
  \<open>return data\<close> inside the loop, \<open>Inr (Inr ...)\<close> is falling out of the loop,
  with the current \<open>value\<close> and queues.
\<close>

fun get_any_pass ::
  "string list \<Rightarrow> 'a item \<Rightarrow> (string \<times> 'a in_queue) list \<Rightarrow> real \<Rightarrow>
   error + ((string \<times> 'a item) list \<times> (string \<times> 'a in_queue) list
            + 'a item \<times> (string \<times> 'a in_queue) list)" where
  "get_any_pass [] v qs t = Inr (Inr (v, qs))"
| "get_any_pass (key # rest) v qs t =
     (case map_of qs key of
        None \<Rightarrow> Inl KeyError
      | Some q \<Rightarrow>
         (case Queue_get_nowait t q of
            None \<Rightarrow>
              if v \<noteq> NONE then Inr (Inl (AList.update key v [], qs))
              else get_any_pass rest v qs t
          | Some (x, q1) \<Rightarrow>
              if x \<noteq> NONE then Inr (Inl (AList.update key x [], AList.update key q1 qs))
              else get_any_pass rest x (AList.update key q1 qs) t))"

text \<open>
  The \<open>while True\<close> loop of \<open>get_any\<close>, for at most \<open>n\<close> passes; each empty pass
  sleeps \<open>sleep_time\<close> and doubles it.
\<close>

fun get_any_loop ::
  "nat \<Rightarrow> 'a item \<Rightarrow> real \<Rightarrow> string list \<Rightarrow> (string \<times> 'a in_queue) list \<Rightarrow> real \<Rightarrow>
   error + (string \<times> 'a item) list \<times> (string \<times> 'a in_queue) list \<times> real" where
  "get_any_loop 0 v sleep_time ks qs t = Inl Polling"
| "get_any_loop (Suc n) v sleep_time ks qs t =
     (case get_any_pass ks v qs t of
        Inl e \<Rightarrow> Inl e
      | Inr (Inl (data, qs1)) \<Rightarrow> Inr (data, qs1, t)
      | Inr (Inr (v1, qs1)) \<Rightarrow>
          if sleep_time < 0 then Inl ValueError
          else get_any_loop n v1 (sleep_time * 2) ks qs1 (t + sleep_time))"

definition get_any ::
  "nat \<Rightarrow> ('a, 'o, 'z) TransformMixin_scheme \<Rightarrow>
   error + (string \<times> 'a item) list \<times> ('a, 'o, 'z) TransformMixin_scheme" where
  "get_any n s =
     (case get_any_loop n NONE (1 / 1000) (keys s) (ports_in s) (now s) of
        Inl e \<Rightarrow> Inl e
      | Inr (data, qs, t) \<Rightarrow> Inr (data, s\<lparr>ports_in := qs, now := t\<rparr>))"

text \<open>
  \<open>data['default']\<close> on the gathered dict: the item itself, as an input of
  \<open>transform\<close>.
\<close>

definition unwrap :: "(string \<times> 'a item) list \<Rightarrow> error + 'a input item" where
  "unwrap data =
     (case map_of data ''default'' of
        None \<Rightarrow> Inl KeyError
      | Some v \<Rightarrow> Inr (map_item Raw v))"

text \<open>
  \<open>get_input\<close>; \<open>n\<close> bounds the polling passes of \<open>get_any\<close>.
  \<open>sleep(self.trigger_source)\<close> raises \<open>TypeError\<close> when the source is no number.
\<close>

definition TransformMixin_get_input ::
  "nat \<Rightarrow> ('a, 'o, 'z) TransformMixin_scheme \<Rightarrow>
   error + 'a input item \<times> ('a, 'o, 'z) TransformMixin_scheme" where
  "TransformMixin_get_input n s =
     (case (case trigger s of
              Trigger TIMER \<Rightarrow>
                (case trigger_source s of
                   Seconds d \<Rightarrow>
                     (case sleep d s of Inl e \<Rightarrow> Inl e | Inr s1 \<Rightarrow> get_all_nowait (discard_old s1) s1)
                 | NoSource \<Rightarrow> Inl TypeError
                 | Key k \<Rightarrow> Inl TypeError)
            | Trigger SLOWEST \<Rightarrow> get_all (discard_old s) s
            | Trigger FASTEST \<Rightarrow> get_any n s
            | Trigger LAYER \<Rightarrow>
                (case trigger_source s of
                   Key k \<Rightarrow> get_ensure_layer k (discard_old s) s
                 | NoSource \<Rightarrow> Inl AssertionError
                 | Seconds d \<Rightarrow> Inl AssertionError)
            | NotATrigger \<Rightarrow> Inl AssertionError) of
        Inl e \<Rightarrow> Inl e
      | Inr (data, s1) \<Rightarrow>
          (case keys s1 of
             [] \<Rightarrow> Inl IndexError
           | k0 # ks \<Rightarrow>
               if k0 = ''default'' \<and> length (keys s1) = 1
               then (case unwrap data of Inl e \<Rightarrow> Inl e | Inr d \<Rightarrow> Inr (d, s1))
               else Inr (Data (Gathered data), s1)))"

section \<open>Notions used in the statements\<close>

text \<open>
  The items that \<open>get_input\<close> returns, in order, during the first \<open>n\<close> passes of the
  loop.
\<close>

fun inputs ::
  "(('i, 'o, 'z) BaseLayer_scheme \<Rightarrow> error + 'i item \<times> ('i, 'o, 'z) BaseLayer_scheme) \<Rightarrow>
   ('i \<Rightarrow> 'o item) \<Rightarrow>
   ('o item \<Rightarrow> ('i, 'o, 'z) BaseLayer_scheme \<Rightarrow> error + ('i, 'o, 'z) BaseLayer_scheme) \<Rightarrow>
   nat \<Rightarrow> ('i, 'o, 'z) BaseLayer_scheme \<Rightarrow> 'i item list" where
  "inputs gi tf ho 0 s = []"
| "inputs gi tf ho (Suc n) s =
     (if stop_event s then []
      else (case gi s of
              Inl e \<Rightarrow> []
            | Inr (data, s1) \<Rightarrow>
                data # (case loop_body gi tf ho s of
                          Inl e \<Rightarrow> []
                        | Inr s' \<Rightarrow> inputs gi tf ho n s')))"

text \<open>
  What every \<open>get_input\<close> and \<open>handle_output\<close> of the repository has in common:
  \<open>get_input\<close> leaves the counter, the default port, \<open>is_first\<close> and the record of
  \<open>post_init\<close> calls alone; a \<open>handle_output\<close> that returns has passed its
  argument to the default port and left the other three alone.
\<close>

definition get_input_frame ::
  "(('i, 'o, 'z) BaseLayer_scheme \<Rightarrow> error + 'i item \<times> ('i, 'o, 'z) BaseLayer_scheme) \<Rightarrow> bool" where
  "get_input_frame gi =
     (\<forall>s data s1. gi s = Inr (data, s1) \<longrightarrow>
        counter s1 = counter s \<and> out_port s1 = out_port s \<and>
        is_first s1 = is_first s \<and> post_init_calls s1 = post_init_calls s)"

definition handle_output_frame ::
  "('o item \<Rightarrow> ('i, 'o, 'z) BaseLayer_scheme \<Rightarrow> error + ('i, 'o, 'z) BaseLayer_scheme) \<Rightarrow> bool" where
  "handle_output_frame ho =
     (\<forall>data s s'. ho data s = Inr s' \<longrightarrow>
        out_port s' = Port_handle_output data (out_port s) \<and> counter s' = counter s \<and>
        is_first s' = is_first s \<and> post_init_calls s' = post_init_calls s)"

text \<open>
  The argument of the first \<open>post_init\<close> call that a sequence of inputs leads to:
  \<open>None\<close> is skipped, \<open>STOP\<close> ends the loop before any call, anything else is it.
\<close>

fun first_call :: "'i item list \<Rightarrow> 'i list" where
  "first_call [] = []"
| "first_call (NONE # ds) = first_call ds"
| "first_call (STOP # ds) = []"
| "first_call (Data x # ds) = [x]"

text \<open>The fields named in the two frame conditions are the same in both states.\<close>

definition same_base ::
  "('i, 'o, 'z) BaseLayer_scheme \<Rightarrow> ('i, 'o, 'z) BaseLayer_scheme \<Rightarrow> bool" where
  "same_base s s1 \<longleftrightarrow>
     counter s1 = counter s \<and> out_port s1 = out_port s \<and> is_first s1 = is_first s \<and>
     post_init_calls s1 = post_init_calls s"

text \<open>
  A layer to try the statements on: a multi-shot layer with one subscriber whose generator
  gives the counter twice and then \<open>STOP\<close>.
\<close>

definition stopping_generate :: "nat \<Rightarrow> int item" where
  "stopping_generate c = (if c < 2 then Data (int c) else STOP)"

definition example_layer :: "int MultipleShotInputLayer" where
  "example_layer =
     snd (BaseOutputLayer_get_output (MultipleShotInputLayer_init 5 stopping_generate 1 False))"

text \<open>
  A named port after a mapping has been emitted: it has been handed the sub-item under its
  name if the mapping has one, and is as before if not.
\<close>

definition forwarded :: "(string \<times> 'v item) list \<Rightarrow> string \<Rightarrow> 'v port \<Rightarrow> 'v port" where
  "forwarded m name port =
     (case map_of m name of None \<Rightarrow> port | Some sub \<Rightarrow> Port_handle_output sub port)"

text \<open>
  The port tables are dicts (no name twice in one table) and no name is in both. This is
  so after \<open>__init__\<close>, stays so under \<open>get_port\<close>, and under \<open>_register_port\<close>
  while no auto port exists, which is how \<open>DecodeLayer\<close> declares its ports.
\<close>

definition tables_apart :: "('i, 'v, 'z) MultiOutputMixin_scheme \<Rightarrow> bool" where
  "tables_apart s \<longleftrightarrow>
     distinct (map fst (ports s)) \<and> distinct (map fst (auto_ports s)) \<and>
     set (map fst (ports s)) \<inter> set (map fst (auto_ports s)) = {}"

text \<open>
  A multi-output layer to try the statements on: declared port \<open>a\<close>, auto port \<open>b\<close>,
  one subscriber on each of them and on the default port.
\<close>

definition example_multi_output :: "(nat, nat) MultiOutputMixin" where
  "example_multi_output =
     MultiOutputMixin_init\<lparr>out_port := [[]], ports := [(''a'', [[]])], auto_ports := [(''b'', [[]])]\<rparr>"

text \<open>
  The input side of a transform layer as \<open>set_input\<close> and the upstream ports leave
  it: every key has its queue, and no queue holds \<open>None\<close>, which
  \<open>Port.handle_output\<close> never puts.
\<close>

definition queues_ok :: "('a, 'o, 'z) TransformMixin_scheme \<Rightarrow> bool" where
  "queues_ok s \<longleftrightarrow>
     (\<forall>key \<in> set (keys s). \<exists>q. map_of (ports_in s) key = Some q \<and> NONE \<notin> snd ` set q)"

text \<open>An item has arrived on the queue of \<open>key\<close> by time \<open>t\<close> and is the next to take.\<close>

definition arrived :: "real \<Rightarrow> (string \<times> 'a in_queue) list \<Rightarrow> string \<Rightarrow> bool" where
  "arrived t qs key =
     (case map_of qs key of None \<Rightarrow> False | Some q \<Rightarrow> Queue_get_nowait t q \<noteq> None)"


text \<open>
  A \<open>FASTEST\<close> layer to try the statements on: key \<open>x\<close> gets an item after 2 ms,
  key \<open>y\<close> after 10 ms.
\<close>

definition example_fastest :: "(nat, nat) TransformMixin" where
  "example_fastest =
     BaseLayer.extend BaseLayer_init
       (TransformMixin.fields [(''x'', [(2 / 1000, Data 1)]), (''y'', [(1 / 100, Data 2)])]
          [''x'', ''y''] False (Trigger FASTEST) NoSource)"

text \<open>
  Two \<open>SLOWEST\<close> layers with keys \<open>a\<close> and \<open>b\<close> and two items to come on each:
  one keeps every item and gets them at different times, the other discards old items and
  has all four waiting when it starts.
\<close>

definition example_slowest :: "(nat, nat input) TransformMixin" where
  "example_slowest =
     BaseLayer.extend BaseLayer_init
       (TransformMixin.fields
          [(''a'', [(0, Data 1), (5, Data 2)]), (''b'', [(3, Data 10), (4, Data 20)])]
          [''a'', ''b''] False (Trigger SLOWEST) NoSource)"

definition example_slowest_discard :: "(nat, nat input) TransformMixin" where
  "example_slowest_discard =
     BaseLayer.extend BaseLayer_init
       (TransformMixin.fields
          [(''a'', [(0, Data 1), (0, Data 2)]), (''b'', [(0, Data 3), (0, Data 4)])]
          [''a'', ''b''] True (Trigger SLOWEST) NoSource)"

text \<open>
  The time when a layer that starts at \<open>t\<close> and waits for the next item of each key
  of \<open>ks\<close> in turn has got them all: each wait ends when the item arrives, or at once
  if it has already arrived.
\<close>

fun time_after :: "real \<Rightarrow> string list \<Rightarrow> (string \<times> 'a in_queue) list \<Rightarrow> real" where
  "time_after t [] qs = t"
| "time_after t (key # rest) qs =
     time_after (case map_of qs key of
                   Some ((arrival, x) # q) \<Rightarrow> max t arrival
                 | _ \<Rightarrow> t) rest qs"



section \<open>Properties\<close>

subsection \<open>Multi-shot producer\<close>

lemmas multi_shot_defs =
  MultipleShotInputLayer_init_def BaseLayer_init_def MultipleShotInputLayer.defs BaseLayer.defs
  Port_init_def loop_body_def MultipleShotInputLayer_get_input_def sleep_rate_def sleep_def
  tick_def default_generate_def get_signal_def post_init_def BaseLayer_transform_def
  BaseOutputLayer_handle_output_def Port_handle_output_def completion_handler_def
  BaseOutputLayer_get_output_def Port_get_output_def stop_def

text \<open>
  C1. A multi-shot layer built with \<open>num_shots = 3\<close>, \<open>finish = False\<close>, the default
  generator, rate 1 and one subscriber. On the call where the counter is
  \<open>num_shots - 1\<close> with \<open>finish\<close> unset, \<open>get_input\<close> falls off its \<open>elif\<close>
  branch and returns \<open>None\<close>, so the loop does not count that call and the counter stays
  at \<open>num_shots - 1\<close>: after ten passes the subscriber has seen two items, not three,
  the completion handler has run on each of the other eight passes, and \<open>expired\<close> is
  still unset.
\<close>

theorem multi_shot_without_finish_fires_short:
  "\<exists>s. iterations MultipleShotInputLayer_get_input BaseLayer_transform BaseOutputLayer_handle_output 10
          (snd (BaseOutputLayer_get_output (MultipleShotInputLayer_init 3 default_generate 1 False)))
        = Inr (s :: int MultipleShotInputLayer)
      \<and> out_port s = [[Data 0, Data 1]] \<and> counter s = 2 \<and> completions s = 8 \<and> \<not> expired s"
  by (simp add: multi_shot_defs eval_nat_numeral)

text \<open>
  With \<open>finish = True\<close> the same layer does what its description says: four fires, the
  last one \<open>-1\<close>, one call of the completion handler, and \<open>expired\<close> set afterwards.
\<close>

lemma multi_shot_with_finish:
  "\<exists>s. iterations MultipleShotInputLayer_get_input BaseLayer_transform BaseOutputLayer_handle_output 10
          (snd (BaseOutputLayer_get_output (MultipleShotInputLayer_init 3 default_generate 1 True)))
        = Inr (s :: int MultipleShotInputLayer)
      \<and> out_port s = [[Data 0, Data 1, Data 2, Data (- 1)]] \<and> counter s = 4
      \<and> completions s = 1 \<and> expired s"
  by (simp add: multi_shot_defs eval_nat_numeral)

text \<open>
  The same for any \<open>num_shots\<close>, generator, transform and output side: once the
  counter is \<open>num_shots - 1\<close> and \<open>finish\<close> is unset, every further pass calls the
  completion handler and changes neither the counter, nor the default port, nor
  \<open>expired\<close>.
\<close>

lemma multi_shot_last_call_returns_None:
  assumes "\<not> finish s" "ms_rate s > 0" "int (counter s) = num_shots s - 1"
  shows "\<exists>s1. MultipleShotInputLayer_get_input s = Inr (NONE, s1) \<and> counter s1 = counter s \<and>
           num_shots s1 = num_shots s \<and> finish s1 = finish s \<and> ms_rate s1 = ms_rate s \<and>
           expired s1 = expired s \<and> completions s1 = completions s + 1 \<and>
           stop_event s1 = stop_event s \<and> out_port s1 = out_port s"
  using assms
  by (simp add: MultipleShotInputLayer_get_input_def sleep_rate_def sleep_def tick_def
      completion_handler_def Let_def)

lemma multi_shot_stuck:
  assumes "\<not> finish s" "ms_rate s > 0" "int (counter s) = num_shots s - 1" "\<not> stop_event s"
  shows "\<exists>s'. iterations MultipleShotInputLayer_get_input tf ho n s = Inr s' \<and>
           counter s' = counter s \<and> expired s' = expired s \<and> out_port s' = out_port s \<and>
           completions s' = completions s + n"
  using assms
proof (induction n arbitrary: s)
  case 0
  then show ?case by simp
next
  case (Suc n)
  from multi_shot_last_call_returns_None[OF Suc.prems(1,2,3)] obtain s1 where
    g: "MultipleShotInputLayer_get_input s = Inr (NONE, s1)" and
    c: "counter s1 = counter s" "num_shots s1 = num_shots s" "finish s1 = finish s"
      "ms_rate s1 = ms_rate s" "expired s1 = expired s" "completions s1 = completions s + 1"
      "stop_event s1 = stop_event s" "out_port s1 = out_port s"
    by blast
  from g have b: "loop_body MultipleShotInputLayer_get_input tf ho s = Inr s1"
    by (simp add: loop_body_def)
  from Suc.IH[of s1] c Suc.prems obtain s' where
    "iterations MultipleShotInputLayer_get_input tf ho n s1 = Inr s'"
    "counter s' = counter s1" "expired s' = expired s1" "out_port s' = out_port s1"
    "completions s' = completions s1 + n"
    by auto
  with b c Suc.prems(4) show ?case by simp
qed

subsection \<open>A transform that returns STOP\<close>

lemmas one_shot_defs =
  OneShotInputLayer_init_def BaseLayer_init_def OneShotInputLayer.defs BaseLayer.defs Port_init_def
  loop_body_def OneShotInputLayer_get_input_def sleep_def tick_def get_signal_def post_init_def
  BaseOutputLayer_handle_output_def Port_handle_output_def BaseOutputLayer_get_output_def
  Port_get_output_def stop_def

text \<open>
  C2. A one-shot layer with value 7, one subscriber and a transform that returns
  \<open>STOP\<close>. The test after \<open>tick()\<close> asks whether the \<^emph>\<open>input\<close> is a
  \<open>LayerSignal\<close>, which it never is at that point, so \<open>stop()\<close> is not called: after
  the pass the \<open>STOP\<close> has gone out as an ordinary item, the counter is 1 and the stop
  event is unset.
\<close>

theorem transform_STOP_does_not_stop:
  "\<exists>s. iterations OneShotInputLayer_get_input (\<lambda>x. STOP) BaseOutputLayer_handle_output 1
          (snd (BaseOutputLayer_get_output (OneShotInputLayer_init (Data (7::nat)))))
        = Inr (s :: (nat, nat) OneShotInputLayer)
      \<and> out_port s = [[STOP]] \<and> counter s = 1 \<and> \<not> stop_event s"
  by (simp add: one_shot_defs)

text \<open>The loop of that layer is still running twenty passes later.\<close>

lemma transform_STOP_runs_on:
  "process_loop OneShotInputLayer_get_input (\<lambda>x. STOP) BaseOutputLayer_handle_output 20
     (snd (BaseOutputLayer_get_output
            (OneShotInputLayer_init (Data (7::nat)) :: (nat, nat) OneShotInputLayer)))
   = None"
  by (simp add: one_shot_defs eval_nat_numeral)

text \<open>
  In general: a pass whose input is data leaves the stop event as \<open>get_input\<close> left
  it, whatever the transform returns.
\<close>

lemma transform_STOP_leaves_stop_event:
  assumes "gi s = Inr (Data x, s1)"
  shows "\<exists>s2. loop_body gi tf BaseOutputLayer_handle_output s = Inr s2 \<and>
           stop_event s2 = stop_event s1"
  using assms
  by (simp add: loop_body_def Let_def BaseOutputLayer_handle_output_def tick_def get_signal_def
      post_init_def stop_def split: option.splits)

subsection \<open>Transform layers: construction and the empty gather\<close>

lemmas transform_defs =
  TransformMixin_init_def set_input_def BaseLayer_init_def TransformMixin.defs BaseLayer.defs
  Port_init_def TransformMixin_get_input_def get_all_nowait_def get_all_def get_any_def
  get_ensure_layer_def take_nowait_def unwrap_def sleep_def

text \<open>
  C3. A \<open>TIMER\<close> layer with the single key \<open>'default'\<close> and nothing on its queue:
  the gather step gives the empty dict and \<open>data['default']\<close> raises \<open>KeyError\<close>.
\<close>

theorem timer_default_empty_KeyError:
  "(case TransformMixin_init (Some []) (Trigger TIMER) (Seconds 1) False of
      Inl e \<Rightarrow> Inl e
    | Inr (s :: (nat, nat) TransformMixin) \<Rightarrow> TransformMixin_get_input n s) = Inl KeyError"
  by (simp add: transform_defs)

text \<open>Under any other key the empty dict is returned as it is.\<close>

lemma timer_other_key_empty:
  "(case TransformMixin_init None (Trigger TIMER) (Seconds 1) False of
      Inl e \<Rightarrow> Inl e
    | Inr (s0 :: (nat, nat) TransformMixin) \<Rightarrow>
       (case set_input [] ''a'' s0 of
          Inl e \<Rightarrow> Inl e
        | Inr s \<Rightarrow> map_sum id fst (TransformMixin_get_input n s)))
   = Inr (Data (Gathered []))"
  by (simp add: transform_defs)

text \<open>
  C8, as stated, fails: constructing a transform layer with a trigger that is no member of
  \<open>LayerTrigger\<close> raises nothing.
\<close>

theorem unknown_trigger_constructs:
  "\<not> isl (TransformMixin_init (Some []) NotATrigger NoSource False
            :: error + (nat, nat) TransformMixin)"
  by (simp add: transform_defs)

text \<open>
  C8, amended. Whatever the other arguments, the constructor returns the layer; the
  \<open>AssertionError\<close> comes from \<open>get_input\<close>, and so from the first pass of the
  processing loop, where it ends the thread.
\<close>

theorem unknown_trigger_fails_in_loop:
  "(case TransformMixin_init port_in NotATrigger source discard of
      Inl e \<Rightarrow> False
    | Inr s \<Rightarrow>
        TransformMixin_get_input n s = Inl AssertionError
        \<and> process_loop (TransformMixin_get_input n) tf ho (Suc m) s = Some (Inl AssertionError))"
  by (cases port_in) (simp_all add: transform_defs loop_body_def)

subsection \<open>What the methods of the repository leave alone\<close>

lemma BaseOutputLayer_frame: "handle_output_frame BaseOutputLayer_handle_output"
  by (simp add: handle_output_frame_def BaseOutputLayer_handle_output_def)

lemma MultipleShotInputLayer_frame: "get_input_frame MultipleShotInputLayer_get_input"
  by (auto simp: get_input_frame_def MultipleShotInputLayer_get_input_def sleep_rate_def sleep_def
      tick_def completion_handler_def Let_def split: if_splits sum.splits)

lemma InputLayer_frame: "get_input_frame InputLayer_get_input"
  by (auto simp: get_input_frame_def InputLayer_get_input_def sleep_rate_def sleep_def
      tick_def Let_def split: if_splits sum.splits)

lemma OneShotInputLayer_frame: "get_input_frame OneShotInputLayer_get_input"
  by (auto simp: get_input_frame_def OneShotInputLayer_get_input_def sleep_def
      split: if_splits sum.splits)

lemma forward_keys_base:
  "forward_keys data ks s = Inr s' \<Longrightarrow>
     out_port s' = out_port s \<and> counter s' = counter s \<and> is_first s' = is_first s
     \<and> post_init_calls s' = post_init_calls s"
proof (induction ks arbitrary: s)
  case Nil
  then show ?case by simp
next
  case (Cons key rest)
  then show ?case
    by (cases "subscript data key")
       (fastforce split: if_splits)+
qed

lemma MultiOutputMixin_effect:
  assumes h: "MultiOutputMixin_handle_output data s = Inr s'"
  shows "out_port s' = Port_handle_output data (out_port s) \<and> counter s' = counter s \<and>
        is_first s' = is_first s \<and> post_init_calls s' = post_init_calls s"
proof (cases "data = NONE")
  case True
  with h show ?thesis
    by (auto simp: MultiOutputMixin_handle_output_def BaseOutputLayer_handle_output_def)
next
  case False
  with h obtain s1 where
    f: "forward_keys data (map fst (ports s) @ map fst (auto_ports s)) s = Inr s1"
    and b: "BaseOutputLayer_handle_output data s1 = Inr s'"
    by (auto simp: MultiOutputMixin_handle_output_def split: sum.splits)
  from forward_keys_base[OF f] b show ?thesis
    by (auto simp: BaseOutputLayer_handle_output_def)
qed

lemma MultiOutputMixin_frame: "handle_output_frame MultiOutputMixin_handle_output"
  unfolding handle_output_frame_def using MultiOutputMixin_effect by blast

lemma get_all_base: "get_all d s = Inr (data, s1) \<Longrightarrow> same_base s s1"
  by (auto simp: get_all_def same_base_def split: sum.splits)

lemma get_all_nowait_base: "get_all_nowait d s = Inr (data, s1) \<Longrightarrow> same_base s s1"
  by (auto simp: get_all_nowait_def same_base_def split: sum.splits)

lemma get_any_base: "get_any n s = Inr (data, s1) \<Longrightarrow> same_base s s1"
  by (auto simp: get_any_def same_base_def split: sum.splits)

lemma get_ensure_layer_base: "get_ensure_layer k d s = Inr (data, s1) \<Longrightarrow> same_base s s1"
  by (auto simp: get_ensure_layer_def same_base_def split: sum.splits option.splits if_splits)

lemma sleep_base: "sleep d s = Inr s1 \<Longrightarrow> same_base s s1"
  by (auto simp: sleep_def same_base_def split: if_splits)

lemma same_base_trans: "same_base s s1 \<Longrightarrow> same_base s1 s2 \<Longrightarrow> same_base s s2"
  by (simp add: same_base_def)

lemma gather_base:
  assumes "(case trigger s of
              Trigger TIMER \<Rightarrow>
                (case trigger_source s of
                   Seconds d \<Rightarrow>
                     (case sleep d s of Inl e \<Rightarrow> Inl e | Inr s1 \<Rightarrow> get_all_nowait (discard_old s1) s1)
                 | NoSource \<Rightarrow> Inl TypeError
                 | Key k \<Rightarrow> Inl TypeError)
            | Trigger SLOWEST \<Rightarrow> get_all (discard_old s) s
            | Trigger FASTEST \<Rightarrow> get_any n s
            | Trigger LAYER \<Rightarrow>
                (case trigger_source s of
                   Key k \<Rightarrow> get_ensure_layer k (discard_old s) s
                 | NoSource \<Rightarrow> Inl AssertionError
                 | Seconds d \<Rightarrow> Inl AssertionError)
            | NotATrigger \<Rightarrow> Inl AssertionError) = Inr (data, s1)"
  shows "same_base s s1"
proof (cases "trigger s")
  case NotATrigger
  with assms show ?thesis by simp
next
  case (Trigger t)
  show ?thesis
  proof (cases t)
    case SLOWEST
    with Trigger assms show ?thesis by (simp add: get_all_base)
  next
    case FASTEST
    with Trigger assms show ?thesis by (simp add: get_any_base)
  next
    case LAYER
    with Trigger assms show ?thesis
      by (cases "trigger_source s") (simp_all add: get_ensure_layer_base)
  next
    case TIMER
    with Trigger assms show ?thesis
      by (cases "trigger_source s")
         (auto split: sum.splits intro: same_base_trans sleep_base get_all_nowait_base)
  qed
qed

lemma TransformMixin_frame: "get_input_frame (TransformMixin_get_input n)"
  unfolding get_input_frame_def
proof (intro allI impI)
  fix s :: "('a, 'b, 'c) TransformMixin_scheme" and d s1
  assume g: "TransformMixin_get_input n s = Inr (d, s1)"
  then obtain data where "(case trigger s of
              Trigger TIMER \<Rightarrow>
                (case trigger_source s of
                   Seconds d \<Rightarrow>
                     (case sleep d s of Inl e \<Rightarrow> Inl e | Inr s1 \<Rightarrow> get_all_nowait (discard_old s1) s1)
                 | NoSource \<Rightarrow> Inl TypeError
                 | Key k \<Rightarrow> Inl TypeError)
            | Trigger SLOWEST \<Rightarrow> get_all (discard_old s) s
            | Trigger FASTEST \<Rightarrow> get_any n s
            | Trigger LAYER \<Rightarrow>
                (case trigger_source s of
                   Key k \<Rightarrow> get_ensure_layer k (discard_old s) s
                 | NoSource \<Rightarrow> Inl AssertionError
                 | Seconds d \<Rightarrow> Inl AssertionError)
            | NotATrigger \<Rightarrow> Inl AssertionError) = Inr (data, s1)"
    unfolding TransformMixin_get_input_def
    by (simp split: sum.splits prod.splits list.splits if_splits)
  from gather_base[OF this]
  show "counter s1 = counter s \<and> out_port s1 = out_port s \<and> is_first s1 = is_first s \<and>
        post_init_calls s1 = post_init_calls s"
    by (simp add: same_base_def)
qed

subsection \<open>The counter and the default port\<close>

lemma loop_body_counter:
  assumes "get_input_frame gi" "handle_output_frame ho" "gi s = Inr (d, s1)" "loop_body gi tf ho s = Inr s'"
  shows "(case d of
            Data x \<Rightarrow> if tf x \<noteq> NONE
                      then counter s' = counter s + 1 \<and> out_port s' = Port_handle_output (tf x) (out_port s)
                      else counter s' = counter s \<and> out_port s' = out_port s
          | _ \<Rightarrow> counter s' = counter s \<and> out_port s' = out_port s)"
  using assms
  unfolding get_input_frame_def handle_output_frame_def loop_body_def
  apply (cases d)
  apply (auto simp: stop_def tick_def get_signal_def post_init_def Let_def split: sum.splits option.splits if_splits)
  done

lemma loop_body_emits:
  assumes "get_input_frame gi" "handle_output_frame ho" "loop_body gi tf ho s = Inr s'"
  shows "\<exists>es. NONE \<notin> set es \<and> counter s' = counter s + length es \<and> out_port s' = map (\<lambda>q. q @ es) (out_port s)"
proof -
  from assms(3) obtain d s1 where g: "gi s = Inr (d, s1)"
    by (auto simp: loop_body_def split: sum.splits)
  note c = loop_body_counter[OF assms(1,2) g assms(3)]
  show ?thesis
  proof (cases "\<exists>x. d = Data x \<and> tf x \<noteq> NONE")
    case True
    then obtain x where "d = Data x" "tf x \<noteq> NONE" by blast
    with c have "counter s' = counter s + length [tf x]" "out_port s' = map (\<lambda>q. q @ [tf x]) (out_port s)"
      by (simp_all add: Port_handle_output_def)
    with \<open>tf x \<noteq> NONE\<close> show ?thesis by (intro exI[of _ "[tf x]"]) simp
  next
    case False
    with c have "counter s' = counter s" "out_port s' = out_port s"
      by (cases d; simp split: if_splits)+
    then show ?thesis by (intro exI[of _ "[]"]) simp
  qed
qed

lemma iterations_emits:
  assumes "get_input_frame gi" "handle_output_frame ho"
  shows "iterations gi tf ho n s = Inr s' \<Longrightarrow>
    \<exists>es. NONE \<notin> set es \<and> counter s' = counter s + length es \<and> out_port s' = map (\<lambda>q. q @ es) (out_port s)"
proof (induction n arbitrary: s)
  case 0
  then show ?case by (intro exI[of _ "[]"]) simp
next
  case (Suc n)
  show ?case
  proof (cases "stop_event s")
    case True
    with Suc.prems show ?thesis by (intro exI[of _ "[]"]) simp
  next
    case False
    with Suc.prems obtain s1 where b: "loop_body gi tf ho s = Inr s1" and r: "iterations gi tf ho n s1 = Inr s'"
      by (auto split: sum.splits)
    from loop_body_emits[OF assms b] obtain es1 where
      e1: "NONE \<notin> set es1" "counter s1 = counter s + length es1" "out_port s1 = map (\<lambda>q. q @ es1) (out_port s)"
      by blast
    from Suc.IH[OF r] obtain es2 where
      e2: "NONE \<notin> set es2" "counter s' = counter s1 + length es2" "out_port s' = map (\<lambda>q. q @ es2) (out_port s1)"
      by blast
    from e1 e2 show ?thesis by (intro exI[of _ "es1 @ es2"]) simp
  qed
qed

lemma process_loop_iterations:
  "process_loop gi tf ho n s = Some (Inr s') \<Longrightarrow>
     \<exists>s1. iterations gi tf ho n s = Inr s1 \<and> stop_event s1 \<and> ho STOP s1 = Inr s'"
proof (induction n arbitrary: s)
  case 0
  then show ?case by (auto split: if_splits)
next
  case (Suc n)
  then show ?case by (auto split: if_splits sum.splits)
qed

lemma process_loop_emits:
  assumes "get_input_frame gi" "handle_output_frame ho" "process_loop gi tf ho n s = Some (Inr s')"
  shows "\<exists>es. NONE \<notin> set es \<and> counter s' = counter s + length es \<and> out_port s' = map (\<lambda>q. q @ es @ [STOP]) (out_port s)"
proof -
  from process_loop_iterations[OF assms(3)] obtain s1 where
    i: "iterations gi tf ho n s = Inr s1" and h: "ho STOP s1 = Inr s'" by blast
  from iterations_emits[OF assms(1,2) i] obtain es where
    e: "NONE \<notin> set es" "counter s1 = counter s + length es" "out_port s1 = map (\<lambda>q. q @ es) (out_port s)" by blast
  from assms(2) h have "out_port s' = Port_handle_output STOP (out_port s1)" "counter s' = counter s1"
    by (auto simp: handle_output_frame_def)
  with e show ?thesis by (intro exI[of _ es]) (simp add: Port_handle_output_def)
qed

lemma example_layer_run:
  "\<exists>s. process_loop MultipleShotInputLayer_get_input BaseLayer_transform
          BaseOutputLayer_handle_output 5 example_layer = Some (Inr s)
      \<and> out_port s = [[Data 0, Data 1, STOP]] \<and> counter s = 2 \<and> post_init_calls s = [0]"
  by (simp add: example_layer_def stopping_generate_def multi_shot_defs eval_nat_numeral)

text \<open>
  C4. For a layer whose \<open>get_input\<close> and \<open>handle_output\<close> are like those of the
  repository: a pass of the loop adds one to the counter exactly when the input is data
  and its transform is not \<open>None\<close>, and then the transform has been put on every
  subscriber queue of the default port; otherwise counter and port are as before. So
  after any number of passes the items put on each queue of the default port are none of
  them \<open>None\<close> and as many as the counter has grown by, and when the loop has ended
  the only further item is the terminal \<open>STOP\<close>, which the counter does not count.
\<close>

theorem counter_counts_default_port_emissions:
  assumes "get_input_frame gi" and "handle_output_frame ho"
  shows "(gi s = Inr (d, s1) \<and> loop_body gi tf ho s = Inr s2 \<longrightarrow>
            (counter s2 = counter s + 1 \<longleftrightarrow> (\<exists>x. d = Data x \<and> tf x \<noteq> NONE)) \<and>
            (counter s2 \<noteq> counter s + 1 \<longrightarrow> counter s2 = counter s \<and> out_port s2 = out_port s) \<and>
            (\<forall>x. d = Data x \<and> tf x \<noteq> NONE \<longrightarrow>
                 out_port s2 = map (\<lambda>q. q @ [tf x]) (out_port s)))
       \<and> (iterations gi tf ho n s = Inr s' \<longrightarrow>
            (\<exists>es. NONE \<notin> set es \<and> counter s' = counter s + length es \<and>
                  out_port s' = map (\<lambda>q. q @ es) (out_port s)))
       \<and> (process_loop gi tf ho n s = Some (Inr s') \<longrightarrow>
            (\<exists>es. NONE \<notin> set es \<and> counter s' = counter s + length es \<and>
                  out_port s' = map (\<lambda>q. q @ es @ [STOP]) (out_port s)))"
proof -
  have p1: "(counter s2 = counter s + 1 \<longleftrightarrow> (\<exists>x. d = Data x \<and> tf x \<noteq> NONE)) \<and>
            (counter s2 \<noteq> counter s + 1 \<longrightarrow> counter s2 = counter s \<and> out_port s2 = out_port s) \<and>
            (\<forall>x. d = Data x \<and> tf x \<noteq> NONE \<longrightarrow>
                 out_port s2 = map (\<lambda>q. q @ [tf x]) (out_port s))"
    if g: "gi s = Inr (d, s1)" and b: "loop_body gi tf ho s = Inr s2"
    using loop_body_counter[OF assms g b]
    by (cases d) (simp_all add: Port_handle_output_def split: if_splits)
  have p2: "\<exists>es. NONE \<notin> set es \<and> counter s' = counter s + length es \<and>
             out_port s' = map (\<lambda>q. q @ es) (out_port s)"
    if "iterations gi tf ho n s = Inr s'"
    using iterations_emits[OF assms that] .
  have p3: "\<exists>es. NONE \<notin> set es \<and> counter s' = counter s + length es \<and>
             out_port s' = map (\<lambda>q. q @ es @ [STOP]) (out_port s)"
    if "process_loop gi tf ho n s = Some (Inr s')"
    using process_loop_emits[OF assms that] .
  from p1 p2 p3 show ?thesis by blast
qed

theorem counter_counts_default_port_emissions_witness:
  "\<exists>s'. process_loop MultipleShotInputLayer_get_input BaseLayer_transform
           BaseOutputLayer_handle_output 5 example_layer = Some (Inr s')
       \<and> (\<exists>es. NONE \<notin> set es \<and> counter s' = counter example_layer + length es \<and>
                 out_port s' = map (\<lambda>q. q @ es @ [STOP]) (out_port example_layer))"
proof -
  from example_layer_run obtain s' where
    r: "process_loop MultipleShotInputLayer_get_input BaseLayer_transform
          BaseOutputLayer_handle_output 5 example_layer = Some (Inr s')"
    by blast
  from counter_counts_default_port_emissions[OF MultipleShotInputLayer_frame BaseOutputLayer_frame,
      THEN conjunct2, THEN conjunct2, rule_format, OF r] r
  show ?thesis by blast
qed

subsection \<open>The one call of post_init\<close>

lemma loop_body_post_init:
  assumes "get_input_frame gi" "handle_output_frame ho" "gi s = Inr (d, s1)" "loop_body gi tf ho s = Inr s2"
  shows "(case d of
            Data x \<Rightarrow> \<not> is_first s2 \<and>
               post_init_calls s2 = (if is_first s then post_init_calls s @ [x] else post_init_calls s)
          | _ \<Rightarrow> is_first s2 = is_first s \<and> post_init_calls s2 = post_init_calls s)"
  using assms
  unfolding get_input_frame_def handle_output_frame_def loop_body_def
  apply (cases d)
  apply (auto simp: stop_def tick_def get_signal_def post_init_def Let_def split: sum.splits option.splits if_splits)
  done

lemma loop_body_stop:
  assumes "gi s = Inr (STOP, s1)" "loop_body gi tf ho s = Inr s2"
  shows "stop_event s2"
  using assms by (auto simp: loop_body_def stop_def)

lemma iterations_not_first:
  assumes "get_input_frame gi" "handle_output_frame ho"
  shows "\<not> is_first s \<Longrightarrow> iterations gi tf ho n s = Inr s' \<Longrightarrow>
           \<not> is_first s' \<and> post_init_calls s' = post_init_calls s"
proof (induction n arbitrary: s)
  case 0
  then show ?case by simp
next
  case (Suc n)
  show ?case
  proof (cases "stop_event s")
    case True
    with Suc.prems show ?thesis by simp
  next
    case False
    with Suc.prems obtain s2 where b: "loop_body gi tf ho s = Inr s2" and r: "iterations gi tf ho n s2 = Inr s'"
      by (auto split: sum.splits)
    from b obtain d s1 where g: "gi s = Inr (d, s1)"
      by (auto simp: loop_body_def split: sum.splits)
    from loop_body_post_init[OF assms g b] Suc.prems(1)
    have "\<not> is_first s2 \<and> post_init_calls s2 = post_init_calls s"
      by (cases d) simp_all
    with Suc.IH[OF _ r] show ?thesis by simp
  qed
qed

lemma first_call_filter:
  "first_call ds = (case filter (\<lambda>d. d \<noteq> NONE) ds of Data x # _ \<Rightarrow> [x] | _ \<Rightarrow> [])"
  by (induction ds rule: first_call.induct) simp_all

lemma iterations_first:
  assumes "get_input_frame gi" "handle_output_frame ho"
  shows "is_first s \<Longrightarrow> iterations gi tf ho n s = Inr s' \<Longrightarrow>
           post_init_calls s' = post_init_calls s @ first_call (inputs gi tf ho n s)
           \<and> (is_first s' \<longleftrightarrow> first_call (inputs gi tf ho n s) = [])"
proof (induction n arbitrary: s)
  case 0
  then show ?case by simp
next
  case (Suc n)
  show ?case
  proof (cases "stop_event s")
    case True
    with Suc.prems show ?thesis by simp
  next
    case False
    with Suc.prems obtain s2 where b: "loop_body gi tf ho s = Inr s2" and r: "iterations gi tf ho n s2 = Inr s'"
      by (auto split: sum.splits)
    from b obtain d s1 where g: "gi s = Inr (d, s1)"
      by (auto simp: loop_body_def split: sum.splits)
    have ins: "inputs gi tf ho (Suc n) s = d # inputs gi tf ho n s2"
      using False g b by simp
    note pi = loop_body_post_init[OF assms g b]
    show ?thesis
    proof (cases d)
      case NONE
      with pi Suc.prems(1) have "is_first s2" "post_init_calls s2 = post_init_calls s" by simp_all
      with Suc.IH[OF _ r] ins NONE show ?thesis by simp
    next
      case STOP
      with pi Suc.prems(1) have f: "is_first s2" "post_init_calls s2 = post_init_calls s" by simp_all
      from loop_body_stop g b STOP have "stop_event s2" by metis
      with r have "s' = s2" by (cases n) simp_all
      with f ins STOP show ?thesis by simp
    next
      case (Data x)
      with pi Suc.prems(1) have f: "\<not> is_first s2" "post_init_calls s2 = post_init_calls s @ [x]" by simp_all
      from iterations_not_first[OF assms f(1) r] f ins Data show ?thesis by simp
    qed
  qed
qed

lemma example_layer_iterations:
  "\<exists>s. iterations MultipleShotInputLayer_get_input BaseLayer_transform
          BaseOutputLayer_handle_output 5 example_layer = Inr s"
  by (simp add: example_layer_def stopping_generate_def multi_shot_defs eval_nat_numeral)

text \<open>
  C5. For a layer whose \<open>get_input\<close> and \<open>handle_output\<close> are like those of the
  repository: a pass whose input is \<open>None\<close> or \<open>STOP\<close> leaves \<open>is_first\<close> and the
  record of \<open>post_init\<close> calls as they were; a pass whose input is data clears
  \<open>is_first\<close> and, if it was set, calls \<open>post_init\<close> with that data (which is also
  what \<open>transform\<close> is applied to). So from a fresh layer, after any number of passes,
  \<open>post_init\<close> has been called at most once, with the first input that was not
  \<open>None\<close>, provided that input was data; and \<open>is_first\<close> is still set exactly when
  there was no call.
\<close>

theorem post_init_once_with_first_item:
  assumes "get_input_frame gi" and "handle_output_frame ho"
  shows "(gi s = Inr (d, s1) \<and> loop_body gi tf ho s = Inr s2 \<longrightarrow>
            (case d of
               Data x \<Rightarrow> \<not> is_first s2 \<and>
                 post_init_calls s2 =
                   (if is_first s then post_init_calls s @ [x] else post_init_calls s)
             | _ \<Rightarrow> is_first s2 = is_first s \<and> post_init_calls s2 = post_init_calls s))
       \<and> (is_first s \<and> post_init_calls s = [] \<and> iterations gi tf ho n s = Inr s' \<longrightarrow>
            length (post_init_calls s') \<le> 1 \<and>
            post_init_calls s' =
              (case filter (\<lambda>d. d \<noteq> NONE) (inputs gi tf ho n s) of
                 Data x # rest \<Rightarrow> [x]
               | _ \<Rightarrow> []) \<and>
            (is_first s' \<longleftrightarrow> post_init_calls s' = []))"
proof -
  have p1: "case d of
          Data x \<Rightarrow> \<not> is_first s2 \<and>
            post_init_calls s2 = (if is_first s then post_init_calls s @ [x] else post_init_calls s)
        | _ \<Rightarrow> is_first s2 = is_first s \<and> post_init_calls s2 = post_init_calls s"
    if g: "gi s = Inr (d, s1)" and b: "loop_body gi tf ho s = Inr s2"
    using loop_body_post_init[OF assms g b] .
  have l: "length (first_call ds) \<le> 1" for ds :: "'a item list"
    by (induction ds rule: first_call.induct) simp_all
  have p2: "length (post_init_calls s') \<le> 1 \<and>
            post_init_calls s' =
              (case filter (\<lambda>d. d \<noteq> NONE) (inputs gi tf ho n s) of
                 Data x # rest \<Rightarrow> [x]
               | _ \<Rightarrow> []) \<and>
            (is_first s' \<longleftrightarrow> post_init_calls s' = [])"
    if f: "is_first s" and e: "post_init_calls s = []" and r: "iterations gi tf ho n s = Inr s'"
  proof -
    from iterations_first[OF assms f r] e
    have c: "post_init_calls s' = first_call (inputs gi tf ho n s)"
      and i: "is_first s' \<longleftrightarrow> first_call (inputs gi tf ho n s) = []" by simp_all
    from c i l[of "inputs gi tf ho n s"] show ?thesis
      by (simp add: first_call_filter)
  qed
  from p1 p2 show ?thesis by blast
qed

theorem post_init_once_with_first_item_witness:
  "is_first example_layer \<and> post_init_calls example_layer = [] \<and>
   (\<exists>s'. iterations MultipleShotInputLayer_get_input BaseLayer_transform
            BaseOutputLayer_handle_output 5 example_layer = Inr s'
        \<and> length (post_init_calls s') \<le> 1
        \<and> post_init_calls s' =
            (case filter (\<lambda>d. d \<noteq> NONE)
                    (inputs MultipleShotInputLayer_get_input BaseLayer_transform
                       BaseOutputLayer_handle_output 5 example_layer) of
               Data x # rest \<Rightarrow> [x]
             | _ \<Rightarrow> []))"
proof -
  have f: "is_first example_layer" and e: "post_init_calls example_layer = []"
    by (simp_all add: example_layer_def multi_shot_defs)
  from example_layer_iterations obtain s' where
    r: "iterations MultipleShotInputLayer_get_input BaseLayer_transform
          BaseOutputLayer_handle_output 5 example_layer = Inr s'"
    by blast
  from post_init_once_with_first_item[OF MultipleShotInputLayer_frame BaseOutputLayer_frame,
      THEN conjunct2, rule_format, where s = example_layer and n = 5 and s' = s'] f e r
  show ?thesis by blast
qed


subsection \<open>Named ports\<close>

lemma is_in_update: "is_in k (AList.update k' v d) = (k = k' \<or> is_in k d)"
  by (simp add: is_in_def update_conv')

lemma is_in_append: "is_in k (d @ e) = (is_in k d \<or> is_in k e)"
  by (auto simp: is_in_def map_add_Some_iff)

lemma is_in_single: "is_in k [(k', v)] = (k = k')"
  by (simp add: is_in_def)

lemma update_absent: "\<not> is_in k d \<Longrightarrow> AList.update k v d = d @ [(k, v)]"
  by (induction d) (auto simp: is_in_def)

text \<open>
  C10. \<open>get_port\<close> returns for every name and in every state: the declared port if
  the name is declared, else the auto port of that name if there is one, else a new auto
  port with no subscribers, which it adds to the end of the auto table. The
  \<open>NameError\<close> at its end (and the one in \<open>_register_port\<close>) is never the result.
\<close>

theorem get_port_never_raises:
  "get_port port s =
     Inr (if is_in port (ports s) then (Declared port, s)
          else if is_in port (auto_ports s) then (Auto port, s)
          else (Auto port, s\<lparr>auto_ports := auto_ports s @ [(port, Port_init)]\<rparr>))"
  by (simp add: get_port_def register_port_def update_absent is_in_append is_in_single)


subsection \<open>Emitting a mapping on a multi-output layer\<close>

lemma is_in_iff: "is_in k d \<longleftrightarrow> k \<in> set (map fst d)"
  by (simp add: is_in_def map_of_eq_None_iff)

lemma in_fst: "(a, b) \<in> set xs \<Longrightarrow> a \<in> fst ` set xs"
  by force

lemma map_fst_map_entry: "map fst (AList.map_entry k f ps) = map fst ps"
  by (induction ps) auto

lemma map_entry_as_map:
  "distinct (map fst ps) \<Longrightarrow>
     AList.map_entry k f ps = map (\<lambda>(k', p). (k', if k' = k then f p else p)) ps"
proof (induction ps)
  case Nil
  then show ?case by simp
next
  case (Cons a ps)
  obtain k' p where a: "a = (k', p)" by (cases a)
  show ?case
  proof (cases "k' = k")
    case True
    with Cons.prems a have "k \<notin> set (map fst ps)" by simp
    then have "map (\<lambda>(k', p). (k', if k' = k then f p else p)) ps = ps"
      by (induction ps) auto
    with True a show ?thesis by simp
  next
    case False
    with Cons a show ?thesis by simp
  qed
qed

lemma forward_keys_spec:
  assumes "tables_apart s" "distinct ks"
    "set ks \<subseteq> set (map fst (ports s)) \<union> set (map fst (auto_ports s))"
  shows "forward_keys (Data m) ks s =
     Inr (s\<lparr>ports := map (\<lambda>(k, p). (k, if k \<in> set ks then forwarded m k p else p)) (ports s),
            auto_ports := map (\<lambda>(k, p). (k, if k \<in> set ks then forwarded m k p else p)) (auto_ports s)\<rparr>)"
  using assms
proof (induction ks arbitrary: s)
  case Nil
  then show ?case by simp
next
  case (Cons key rest)
  from Cons.prems have nk: "key \<notin> set rest" and dr: "distinct rest" by simp_all
  from Cons.prems(1) have dp: "distinct (map fst (ports s))" and da: "distinct (map fst (auto_ports s))"
    and dj: "set (map fst (ports s)) \<inter> set (map fst (auto_ports s)) = {}"
    by (simp_all add: tables_apart_def)
  show ?case
  proof (cases "map_of m key")
    case None
    have "forward_keys (Data m) (key # rest) s = forward_keys (Data m) rest s"
      using None Cons.prems(3) by (auto simp: is_in_iff)
    also have "\<dots> = Inr (s\<lparr>ports := map (\<lambda>(k, p). (k, if k \<in> set rest then forwarded m k p else p)) (ports s),
            auto_ports := map (\<lambda>(k, p). (k, if k \<in> set rest then forwarded m k p else p)) (auto_ports s)\<rparr>)"
      using Cons.IH[OF Cons.prems(1) dr] Cons.prems(3) by simp
    also have "map (\<lambda>(k, p). (k, if k \<in> set rest then forwarded m k p else p)) (ports s)
        = map (\<lambda>(k, p). (k, if k \<in> set (key # rest) then forwarded m k p else p)) (ports s)"
      using None by (auto simp: forwarded_def)
    also have "map (\<lambda>(k, p). (k, if k \<in> set rest then forwarded m k p else p)) (auto_ports s)
        = map (\<lambda>(k, p). (k, if k \<in> set (key # rest) then forwarded m k p else p)) (auto_ports s)"
      using None by (auto simp: forwarded_def)
    finally show ?thesis .
  next
    case (Some sub)
    show ?thesis
    proof (cases "is_in key (ports s)")
      case True
      let ?s1 = "s\<lparr>ports := AList.map_entry key (Port_handle_output sub) (ports s)\<rparr>"
      have t1: "tables_apart ?s1"
        using Cons.prems(1) by (simp add: tables_apart_def map_fst_map_entry)
      have sub1: "set rest \<subseteq> set (map fst (ports ?s1)) \<union> set (map fst (auto_ports ?s1))"
        using Cons.prems(3) by (simp add: map_fst_map_entry)
      from True dj have na: "key \<notin> set (map fst (auto_ports s))" by (auto simp: is_in_iff)
      have "forward_keys (Data m) (key # rest) s = forward_keys (Data m) rest ?s1"
        using Some True by simp
      also note Cons.IH[OF t1 dr sub1]
      also have "map (\<lambda>(k, p). (k, if k \<in> set rest then forwarded m k p else p)) (ports ?s1)
        = map (\<lambda>(k, p). (k, if k \<in> set (key # rest) then forwarded m k p else p)) (ports s)"
        using Some nk by (auto simp: map_entry_as_map[OF dp] forwarded_def)
      also have "map (\<lambda>(k, p). (k, if k \<in> set rest then forwarded m k p else p)) (auto_ports ?s1)
        = map (\<lambda>(k, p). (k, if k \<in> set (key # rest) then forwarded m k p else p)) (auto_ports s)"
        using na by (auto dest: in_fst)
      finally show ?thesis by simp
    next
      case False
      with Cons.prems(3) have ia: "is_in key (auto_ports s)" by (auto simp: is_in_iff)
      let ?s1 = "s\<lparr>auto_ports := AList.map_entry key (Port_handle_output sub) (auto_ports s)\<rparr>"
      have t1: "tables_apart ?s1"
        using Cons.prems(1) by (simp add: tables_apart_def map_fst_map_entry)
      have sub1: "set rest \<subseteq> set (map fst (ports ?s1)) \<union> set (map fst (auto_ports ?s1))"
        using Cons.prems(3) by (simp add: map_fst_map_entry)
      from False have np: "key \<notin> set (map fst (ports s))" by (auto simp: is_in_iff)
      have "forward_keys (Data m) (key # rest) s = forward_keys (Data m) rest ?s1"
        using Some False ia by simp
      also note Cons.IH[OF t1 dr sub1]
      also have "map (\<lambda>(k, p). (k, if k \<in> set rest then forwarded m k p else p)) (auto_ports ?s1)
        = map (\<lambda>(k, p). (k, if k \<in> set (key # rest) then forwarded m k p else p)) (auto_ports s)"
        using Some nk by (auto simp: map_entry_as_map[OF da] forwarded_def)
      also have "map (\<lambda>(k, p). (k, if k \<in> set rest then forwarded m k p else p)) (ports ?s1)
        = map (\<lambda>(k, p). (k, if k \<in> set (key # rest) then forwarded m k p else p)) (ports s)"
        using np by (auto dest: in_fst)
      finally show ?thesis by simp
    qed
  qed
qed

lemma init_tables_apart: "tables_apart MultiOutputMixin_init"
  by (simp add: tables_apart_def MultiOutputMixin_init_def MultiOutputMixin.defs BaseLayer.defs)

lemma register_declared_tables_apart:
  assumes "tables_apart s" "auto_ports s = []" "register_port name False s = Inr s'"
  shows "tables_apart s' \<and> auto_ports s' = []"
  using assms
  by (auto simp: register_port_def tables_apart_def update_absent is_in_iff split: if_splits)

lemma get_port_tables_apart:
  assumes "tables_apart s" "get_port name s = Inr (r, s')"
  shows "tables_apart s'"
proof (cases "is_in name (ports s) \<or> is_in name (auto_ports s)")
  case True
  with assms show ?thesis by (auto simp: get_port_def split: if_splits)
next
  case False
  with assms(2) have s': "s' = s\<lparr>auto_ports := auto_ports s @ [(name, Port_init)]\<rparr>"
    by (simp add: get_port_def register_port_def update_absent is_in_append is_in_single)
  from False have "name \<notin> set (map fst (ports s))" "name \<notin> set (map fst (auto_ports s))"
    by (simp_all add: is_in_iff)
  with assms(1) show ?thesis
    unfolding s' tables_apart_def by simp
qed

text \<open>
  C9. In a state whose port tables share no name, emitting a mapping \<open>m\<close> returns, and
  it changes three things: every declared port and every auto port has been handed
  \<open>m[name]\<close> if \<open>m\<close> has its name and is untouched if not, and the default port has
  been handed the whole mapping.
\<close>

theorem multi_output_forwards_by_name:
  assumes "tables_apart s"
  shows "MultiOutputMixin_handle_output (Data m) s =
     Inr (s\<lparr>ports := map (\<lambda>(name, port). (name, forwarded m name port)) (ports s),
            auto_ports := map (\<lambda>(name, port). (name, forwarded m name port)) (auto_ports s),
            out_port := Port_handle_output (Data m) (out_port s)\<rparr>)"
proof -
  let ?ks = "map fst (ports s) @ map fst (auto_ports s)"
  from assms have d: "distinct ?ks" by (auto simp: tables_apart_def)
  have p: "map (\<lambda>(k, p). (k, if k \<in> set ?ks then forwarded m k p else p)) (ports s)
         = map (\<lambda>(name, port). (name, forwarded m name port)) (ports s)"
    by (auto dest: in_fst)
  have a: "map (\<lambda>(k, p). (k, if k \<in> set ?ks then forwarded m k p else p)) (auto_ports s)
         = map (\<lambda>(name, port). (name, forwarded m name port)) (auto_ports s)"
    by (auto dest: in_fst)
  from forward_keys_spec[OF assms d, of m] p a
  show ?thesis
    by (simp add: MultiOutputMixin_handle_output_def BaseOutputLayer_handle_output_def)
qed

theorem multi_output_forwards_by_name_witness:
  "tables_apart example_multi_output \<and>
   (\<exists>s'. MultiOutputMixin_handle_output (Data [(''a'', Data 1), (''c'', Data 3)])
            example_multi_output = Inr s'
        \<and> ports s' = [(''a'', [[Data 1]])] \<and> auto_ports s' = [(''b'', [[]])]
        \<and> out_port s' = [[Data [(''a'', Data 1), (''c'', Data 3)]]])"
proof -
  have t: "tables_apart example_multi_output"
    by (simp add: tables_apart_def example_multi_output_def)
  from multi_output_forwards_by_name[OF t, of "[(''a'', Data 1), (''c'', Data 3)]"] t
  show ?thesis
    by (simp add: forwarded_def Port_handle_output_def example_multi_output_def)
qed


subsection \<open>The FASTEST policy\<close>

text \<open>\<open>__init__\<close> and \<open>set_input\<close> give every key its queue.\<close>

lemma init_queues_ok:
  "NONE \<notin> snd ` set feed \<Longrightarrow> TransformMixin_init (Some feed) trig source discard = Inr s \<Longrightarrow>
     queues_ok s \<and> keys s = [''default'']"
  by (auto simp: TransformMixin_init_def set_input_def queues_ok_def TransformMixin.defs
      BaseLayer.defs)

lemma set_input_queues_ok:
  assumes "queues_ok s" "NONE \<notin> snd ` set feed" "set_input feed key s = Inr s'"
  shows "queues_ok s' \<and> keys s' = keys s @ [key]"
  using assms
  by (auto simp: set_input_def queues_ok_def update_conv' split: if_splits)

lemma arrived_Cons:
  "map_of qs key = Some q \<Longrightarrow> arrived t qs key \<longleftrightarrow> (\<exists>a v q'. q = (a, v) # q' \<and> a \<le> t)"
  by (cases q) (auto simp: arrived_def split: if_splits)

lemma get_any_pass_spec:
  assumes "\<forall>key \<in> set ks. \<exists>q. map_of qs key = Some q \<and> NONE \<notin> snd ` set q"
  shows "(find (arrived t qs) ks = None \<and> get_any_pass ks NONE qs t = Inr (Inr (NONE, qs)))
       \<or> (\<exists>k a v q. find (arrived t qs) ks = Some k \<and> map_of qs k = Some ((a, v) # q) \<and> a \<le> t
             \<and> v \<noteq> NONE
             \<and> get_any_pass ks NONE qs t = Inr (Inl ([(k, v)], AList.update k q qs)))"
  using assms
proof (induction ks)
  case Nil
  then show ?case by simp
next
  case (Cons key rest)
  from Cons.prems obtain q where q: "map_of qs key = Some q" and nn: "NONE \<notin> snd ` set q"
    by auto
  show ?case
  proof (cases "arrived t qs key")
    case True
    with q obtain a v q' where q': "q = (a, v) # q'" and a: "a \<le> t"
      by (auto simp: arrived_Cons)
    from nn q' have v: "v \<noteq> NONE" by force
    from q q' a v True show ?thesis by simp
  next
    case False
    with q have "Queue_get_nowait t q = None"
      by (cases "Queue_get_nowait t q") (auto simp: arrived_def)
    with q False Cons.IH Cons.prems show ?thesis by simp
  qed
qed

lemma get_any_loop_spec:
  assumes "\<forall>key \<in> set ks. \<exists>q. map_of qs key = Some q \<and> NONE \<notin> snd ` set q"
    and "0 \<le> st"
    and "get_any_loop n NONE st ks qs t = Inr (data, qs', t')"
  shows "\<exists>p k a v q. p < n \<and> t' = t + st * (2 ^ p - 1)
           \<and> (\<forall>i<p. find (arrived (t + st * (2 ^ i - 1)) qs) ks = None)
           \<and> find (arrived t' qs) ks = Some k \<and> map_of qs k = Some ((a, v) # q) \<and> a \<le> t'
           \<and> v \<noteq> NONE \<and> data = [(k, v)] \<and> qs' = AList.update k q qs"
  using assms(2,3)
proof (induction n arbitrary: st t)
  case 0
  then show ?case by simp
next
  case (Suc n)
  note ps = get_any_pass_spec[OF assms(1), of t]
  show ?case
  proof (cases "find (arrived t qs) ks")
    case (Some k)
    with ps obtain a v q where hit: "find (arrived t qs) ks = Some k"
      "map_of qs k = Some ((a, v) # q)" "a \<le> t" "v \<noteq> NONE"
      "get_any_pass ks NONE qs t = Inr (Inl ([(k, v)], AList.update k q qs))"
      by auto
    with Suc.prems(2) have "data = [(k, v)]" "qs' = AList.update k q qs" "t' = t" by simp_all
    with hit show ?thesis
      by (intro exI[of _ 0] exI[of _ k] exI[of _ a] exI[of _ v] exI[of _ q]) simp
  next
    case None
    with ps have empty: "find (arrived t qs) ks = None"
      "get_any_pass ks NONE qs t = Inr (Inr (NONE, qs))" by auto
    with Suc.prems have r: "get_any_loop n NONE (st * 2) ks qs (t + st) = Inr (data, qs', t')"
      by simp
    from Suc.prems(1) have "0 \<le> st * 2" by simp
    from Suc.IH[OF this r] obtain p k a v q where
      p: "p < n" "t' = t + st + st * 2 * (2 ^ p - 1)"
      and e: "\<forall>i<p. find (arrived (t + st + st * 2 * (2 ^ i - 1)) qs) ks = None"
      and h: "find (arrived t' qs) ks = Some k" "map_of qs k = Some ((a, v) # q)" "a \<le> t'"
        "v \<noteq> NONE" "data = [(k, v)]" "qs' = AList.update k q qs"
      by blast
    have tm: "t + st + st * 2 * (2 ^ i - 1) = t + st * (2 ^ Suc i - 1)" for i
      by (simp add: algebra_simps)
    from e have e': "\<forall>i<p. find (arrived (t + st * (2 ^ Suc i - 1)) qs) ks = None"
      unfolding tm .
    from p(2) have t': "t' = t + st * (2 ^ Suc p - 1)"
      unfolding tm .
    have "\<forall>i<Suc p. find (arrived (t + st * (2 ^ i - 1)) qs) ks = None"
    proof (intro allI impI)
      fix i assume "i < Suc p"
      show "find (arrived (t + st * (2 ^ i - 1)) qs) ks = None"
      proof (cases i)
        case 0
        with empty show ?thesis by simp
      next
        case (Suc j)
        with \<open>i < Suc p\<close> e' show ?thesis by auto
      qed
    qed
    with p(1) h t' show ?thesis
      by (intro exI[of _ "Suc p"] exI[of _ k] exI[of _ a] exI[of _ v] exI[of _ q]) simp
  qed
qed

lemma get_any_loop_returns:
  assumes "\<forall>key \<in> set ks. \<exists>q. map_of qs key = Some q \<and> NONE \<notin> snd ` set q"
  shows "0 \<le> st \<Longrightarrow> find (arrived (t + st * (2 ^ p - 1)) qs) ks \<noteq> None \<Longrightarrow>
         isl (get_any_loop (Suc p) NONE st ks qs t) = False"
proof (induction p arbitrary: st t)
  case 0
  with get_any_pass_spec[OF assms, of t] show ?case by auto
next
  case (Suc p)
  note ps = get_any_pass_spec[OF assms, of t]
  show ?case
  proof (cases "find (arrived t qs) ks")
    case (Some k)
    with ps obtain v q where "get_any_pass ks NONE qs t = Inr (Inl ([(k, v)], AList.update k q qs))"
      by auto
    then show ?thesis by simp
  next
    case None
    with ps have empty: "get_any_pass ks NONE qs t = Inr (Inr (NONE, qs))" by auto
    have tm: "t + st + st * 2 * (2 ^ p - 1) = t + st * (2 ^ Suc p - 1)"
      by (simp add: algebra_simps)
    from Suc.prems have "0 \<le> st * 2" by simp
    from Suc.prems(2) have "find (arrived (t + st + st * 2 * (2 ^ p - 1)) qs) ks \<noteq> None"
      unfolding tm .
    from Suc.IH[OF \<open>0 \<le> st * 2\<close> this]
    have "isl (get_any_loop (Suc p) NONE (st * 2) ks qs (t + st)) = False" .
    with empty Suc.prems(1) show ?thesis by simp
  qed
qed

lemma some_pass_reaches:
  fixes a t st :: real
  assumes "0 < st"
  shows "\<exists>p. a \<le> t + st * (2 ^ p - 1)"
proof -
  from real_arch_pow[of 2 "(a - t) / st + 1"] obtain p :: nat where "(a - t) / st + 1 < 2 ^ p"
    by auto
  then have "(a - t) / st < 2 ^ p - 1" by simp
  with assms have "a - t < st * (2 ^ p - 1)"
    by (simp add: pos_divide_less_eq mult.commute)
  then show ?thesis by (intro exI[of _ p]) simp
qed

lemma example_fastest_built:
  "(case TransformMixin_init None (Trigger FASTEST) NoSource False of
      Inl e \<Rightarrow> Inl e
    | Inr s0 \<Rightarrow>
       (case set_input [(2 / 1000, Data 1)] ''x'' s0 of
          Inl e \<Rightarrow> Inl e
        | Inr s1 \<Rightarrow> set_input [(1 / 100, Data 2)] ''y'' s1)) = Inr example_fastest"
  by (simp add: example_fastest_def TransformMixin_init_def set_input_def TransformMixin.defs
      BaseLayer.defs BaseLayer_init_def)

lemma get_any_spec:
  assumes "queues_ok s" and "get_any n s = Inr (data, s')"
  shows "\<exists>p k a v q. p < n \<and> now s' = now s + (2 ^ p - 1) / 1000
           \<and> (\<forall>i<p. find (arrived (now s + (2 ^ i - 1) / 1000) (ports_in s)) (keys s) = None)
           \<and> find (arrived (now s') (ports_in s)) (keys s) = Some k
           \<and> map_of (ports_in s) k = Some ((a, v) # q) \<and> a \<le> now s' \<and> v \<noteq> NONE
           \<and> data = [(k, v)] \<and> ports_in s' = AList.update k q (ports_in s)
           \<and> keys s' = keys s \<and> k \<in> set (keys s)"
proof -
  from assms(2) obtain qs' t' where
    l: "get_any_loop n NONE (1 / 1000) (keys s) (ports_in s) (now s) = Inr (data, qs', t')"
    and s': "s' = s\<lparr>ports_in := qs', now := t'\<rparr>"
    by (auto simp: get_any_def split: sum.splits)
  from assms(1) have ok: "\<forall>key \<in> set (keys s). \<exists>q. map_of (ports_in s) key = Some q \<and> NONE \<notin> snd ` set q"
    by (simp add: queues_ok_def)
  from get_any_loop_spec[OF ok _ l] obtain p k a v q where
    r: "p < n" "t' = now s + 1 / 1000 * (2 ^ p - 1)"
      "\<forall>i<p. find (arrived (now s + 1 / 1000 * (2 ^ i - 1)) (ports_in s)) (keys s) = None"
      "find (arrived t' (ports_in s)) (keys s) = Some k" "map_of (ports_in s) k = Some ((a, v) # q)"
      "a \<le> t'" "v \<noteq> NONE" "data = [(k, v)]" "qs' = AList.update k q (ports_in s)"
    by auto
  from r(4) have "k \<in> set (keys s)" by (auto simp: find_Some_iff)
  with r s' show ?thesis
    by (intro exI[of _ p] exI[of _ k] exI[of _ a] exI[of _ v] exI[of _ q]) simp
qed

lemma fastest_get_input:
  assumes "trigger s = Trigger FASTEST" and "get_any n s = Inr ([(k, v)], s')"
    and "keys s' = keys s" and "k \<in> set (keys s)"
  shows "TransformMixin_get_input n s =
     Inr (if keys s = [''default''] then map_item Raw v else Data (Gathered [(k, v)]), s')"
proof -
  from assms(4) obtain k0 rest where ks: "keys s = k0 # rest" by (cases "keys s") auto
  show ?thesis
  proof (cases "keys s = [''default'']")
    case True
    with assms(4) have "k = ''default''" by simp
    with True assms(1,2,3) show ?thesis
      by (simp add: TransformMixin_get_input_def unwrap_def)
  next
    case False
    with ks have "\<not> (k0 = ''default'' \<and> length (keys s) = 1)" by auto
    with False ks assms(1,2,3) show ?thesis
      by (auto simp: TransformMixin_get_input_def)
  qed
qed

text \<open>
  C7, as stated, fails for the key list \<open>['default']\<close>: \<open>get_input\<close> returns the
  item taken from the queue, not a map with one entry.
\<close>

theorem fastest_default_returns_raw_item:
  "(case TransformMixin_init (Some [(0, Data 5)]) (Trigger FASTEST) NoSource False of
      Inl e \<Rightarrow> Inl e
    | Inr (s :: (nat, nat) TransformMixin) \<Rightarrow> map_sum id fst (TransformMixin_get_input 1 s))
   = Inr (Data (Raw 5))"
  by (simp add: transform_defs)

text \<open>
  C7, amended. Under \<open>FASTEST\<close>, with queues as the ports fill them, a call of
  \<open>get_input\<close> that returns has made \<open>p\<close> empty passes, after which it slept 1 ms,
  2 ms, 4 ms and so on, so that it returns \<open>(2^p - 1)\<close> ms after it was called; on the
  next pass it took the item \<open>v\<close> from the first key \<open>k\<close> of the key list that had
  one, and nothing else; \<open>get_any\<close> returned the map of the single entry \<open>k: v\<close>,
  and \<open>get_input\<close> returns that map, or \<open>v\<close> itself when the key list is
  \<open>['default']\<close>. And if any key has an item coming, some number of passes is enough
  for the call to return.
\<close>

theorem fastest_returns_first_ready_key:
  assumes "trigger s = Trigger FASTEST" and "queues_ok s"
  shows "(TransformMixin_get_input n s = Inr (d, s') \<longrightarrow>
           (\<exists>p k a v q. p < n \<and> now s' = now s + (2 ^ p - 1) / 1000
              \<and> (\<forall>i<p. find (arrived (now s + (2 ^ i - 1) / 1000) (ports_in s)) (keys s) = None)
              \<and> find (arrived (now s') (ports_in s)) (keys s) = Some k
              \<and> map_of (ports_in s) k = Some ((a, v) # q) \<and> v \<noteq> NONE
              \<and> ports_in s' = AList.update k q (ports_in s)
              \<and> get_any n s = Inr ([(k, v)], s')
              \<and> d = (if keys s = [''default''] then map_item Raw v else Data (Gathered [(k, v)]))))
       \<and> ((\<exists>key \<in> set (keys s). \<exists>q. map_of (ports_in s) key = Some q \<and> q \<noteq> []) \<longrightarrow>
           (\<exists>m d1 s1. TransformMixin_get_input m s = Inr (d1, s1)))"
proof -
  have p1: "\<exists>p k a v q. p < n \<and> now s' = now s + (2 ^ p - 1) / 1000
              \<and> (\<forall>i<p. find (arrived (now s + (2 ^ i - 1) / 1000) (ports_in s)) (keys s) = None)
              \<and> find (arrived (now s') (ports_in s)) (keys s) = Some k
              \<and> map_of (ports_in s) k = Some ((a, v) # q) \<and> v \<noteq> NONE
              \<and> ports_in s' = AList.update k q (ports_in s)
              \<and> get_any n s = Inr ([(k, v)], s')
              \<and> d = (if keys s = [''default''] then map_item Raw v else Data (Gathered [(k, v)]))"
    if g: "TransformMixin_get_input n s = Inr (d, s')"
  proof -
    from g assms(1) obtain data s1 where ga: "get_any n s = Inr (data, s1)"
      by (auto simp: TransformMixin_get_input_def split: sum.splits)
    from get_any_spec[OF assms(2) ga] obtain p k a v q where
      r: "p < n" "now s1 = now s + (2 ^ p - 1) / 1000"
        "\<forall>i<p. find (arrived (now s + (2 ^ i - 1) / 1000) (ports_in s)) (keys s) = None"
        "find (arrived (now s1) (ports_in s)) (keys s) = Some k"
        "map_of (ports_in s) k = Some ((a, v) # q)" "v \<noteq> NONE"
        "data = [(k, v)]" "ports_in s1 = AList.update k q (ports_in s)"
        "keys s1 = keys s" "k \<in> set (keys s)"
      by blast
    from fastest_get_input[OF assms(1) ga[unfolded r(7)] r(9,10)] g
    have "s' = s1" "d = (if keys s = [''default''] then map_item Raw v else Data (Gathered [(k, v)]))"
      by simp_all
    with r ga show ?thesis
      by (intro exI[of _ p] exI[of _ k] exI[of _ a] exI[of _ v] exI[of _ q]) simp
  qed
  have p2: "\<exists>m d1 s1. TransformMixin_get_input m s = Inr (d1, s1)"
    if "\<exists>key \<in> set (keys s). \<exists>q. map_of (ports_in s) key = Some q \<and> q \<noteq> []"
  proof -
    from that obtain key a v q where key: "key \<in> set (keys s)"
      and q: "map_of (ports_in s) key = Some ((a, v) # q)"
      by (metis list.exhaust surj_pair)
    from some_pass_reaches[of "1 / 1000" a "now s"] obtain p where
      p: "a \<le> now s + 1 / 1000 * (2 ^ p - 1)" by auto
    with q have "arrived (now s + 1 / 1000 * (2 ^ p - 1)) (ports_in s) key"
      by (simp add: arrived_def)
    with key have f: "find (arrived (now s + 1 / 1000 * (2 ^ p - 1)) (ports_in s)) (keys s) \<noteq> None"
      by (auto simp: find_None_iff)
    from assms(2) have ok: "\<forall>key \<in> set (keys s). \<exists>q. map_of (ports_in s) key = Some q \<and> NONE \<notin> snd ` set q"
      by (simp add: queues_ok_def)
    from get_any_loop_returns[OF ok _ f] obtain r where
      "get_any_loop (Suc p) NONE (1 / 1000) (keys s) (ports_in s) (now s) = Inr r"
      by (cases "get_any_loop (Suc p) NONE (1 / 1000) (keys s) (ports_in s) (now s)") auto
    then obtain data s1 where ga: "get_any (Suc p) s = Inr (data, s1)"
      by (cases r) (auto simp: get_any_def)
    from get_any_spec[OF assms(2) ga] obtain k v' where
      "data = [(k, v')]" "keys s1 = keys s" "k \<in> set (keys s)" by blast
    with fastest_get_input[OF assms(1), of "Suc p" k v' s1] ga show ?thesis by blast
  qed
  from p1 p2 show ?thesis by blast
qed

theorem fastest_returns_first_ready_key_witness:
  "trigger example_fastest = Trigger FASTEST \<and> queues_ok example_fastest \<and>
   (\<exists>d s'. TransformMixin_get_input 5 example_fastest = Inr (d, s') \<and>
      (\<exists>p k a v q. p < 5 \<and> now s' = now example_fastest + (2 ^ p - 1) / 1000
          \<and> find (arrived (now s') (ports_in example_fastest)) (keys example_fastest) = Some k
          \<and> map_of (ports_in example_fastest) k = Some ((a, v) # q)
          \<and> d = Data (Gathered [(k, v)])))"
proof -
  have t: "trigger example_fastest = Trigger FASTEST"
    by (simp add: example_fastest_def TransformMixin.defs BaseLayer.defs)
  have ok: "queues_ok example_fastest"
    by (simp add: queues_ok_def example_fastest_def TransformMixin.defs BaseLayer.defs)
  have k: "keys example_fastest \<noteq> [''default'']"
    by (simp add: example_fastest_def TransformMixin.defs BaseLayer.defs)
  have "\<exists>d s'. TransformMixin_get_input 5 example_fastest = Inr (d, s')"
    by (simp add: example_fastest_def TransformMixin.defs BaseLayer.defs BaseLayer_init_def
        TransformMixin_get_input_def get_any_def eval_nat_numeral)
  then obtain d s' where g: "TransformMixin_get_input 5 example_fastest = Inr (d, s')" by blast
  from fastest_returns_first_ready_key[OF t ok, THEN conjunct1, rule_format, OF g] k t ok g
  show ?thesis by fastforce
qed

subsection \<open>The SLOWEST policy\<close>



lemma time_after_mono: "t \<le> time_after t ks qs"
proof (induction ks arbitrary: t)
  case Nil
  then show ?case by simp
next
  case (Cons key rest)
  have "t \<le> (case map_of qs key of Some ((arrival, x) # q) \<Rightarrow> max t arrival | _ \<Rightarrow> t)"
    by (simp split: option.splits list.splits prod.splits)
  with Cons[of "case map_of qs key of Some ((arrival, x) # q) \<Rightarrow> max t arrival | _ \<Rightarrow> t"]
  show ?case by simp
qed









lemmas example_slowest_defs =
  example_slowest_def example_slowest_discard_def TransformMixin.defs BaseLayer.defs
  BaseLayer_init_def Port_init_def

lemma example_slowest_built:
  "(case TransformMixin_init None (Trigger SLOWEST) NoSource False of
      Inl e \<Rightarrow> Inl e
    | Inr s0 \<Rightarrow>
       (case set_input [(0, Data 1), (5, Data 2)] ''a'' s0 of
          Inl e \<Rightarrow> Inl e
        | Inr s1 \<Rightarrow> set_input [(3, Data 10), (4, Data 20)] ''b'' s1)) = Inr example_slowest"
  by (simp add: example_slowest_defs TransformMixin_init_def set_input_def)

lemma example_slowest_discard_built:
  "(case TransformMixin_init None (Trigger SLOWEST) NoSource True of
      Inl e \<Rightarrow> Inl e
    | Inr s0 \<Rightarrow>
       (case set_input [(0, Data 1), (0, Data 2)] ''a'' s0 of
          Inl e \<Rightarrow> Inl e
        | Inr s1 \<Rightarrow> set_input [(0, Data 3), (0, Data 4)] ''b'' s1)) = Inr example_slowest_discard"
  by (simp add: example_slowest_defs TransformMixin_init_def set_input_def)

lemma example_slowest_first:
  "map_sum id (\<lambda>(d, s1). (d, now s1)) (TransformMixin_get_input 0 example_slowest)
     = Inr (Data (Gathered [(''a'', Data 1), (''b'', Data 10)]), 3)"
  by (simp add: example_slowest_defs TransformMixin_get_input_def get_all_def)




end
